theory Spec2Isabelle
  imports Complex_Main
begin

section \<open>MotionObserver: a shallow embedding of \<^verbatim>\<open>src/index.ts\<close>\<close>

text \<open>
  JavaScript numbers are modelled as \<^typ>\<open>real\<close> (exact arithmetic), \<^verbatim>\<open>Date.now()\<close> as an
  \<^typ>\<open>int\<close> of milliseconds that every handler receives as an argument, a \<^verbatim>\<open>Set\<close> whose
  iteration order matters as a duplicate-free list in insertion order, a \<^verbatim>\<open>Map\<close> as a partial
  function, and a \<^verbatim>\<open>TypeError\<close> raised by a method call on \<^verbatim>\<open>undefined\<close> as an error value.
\<close>

subsection \<open>Basic math types and motion types\<close>

type_synonym Quaternion = "real \<times> real \<times> real \<times> real"
type_synonym Vector = "real \<times> real \<times> real"
type_synonym Matrix = "real list"

datatype MotionType = Orientation | AccelerationInclGravity | Acceleration

datatype NativeEventType = DeviceOrientation | DeviceOrientationAbsolute | DeviceMotion

record 'd CustomEvent =
  evName :: string
  detail :: 'd
  cancelBubble :: bool

record AccelerationDetail =
  acc :: Vector
  interval :: real
  inaccurate :: bool

record OrientationDetail =
  alpha :: real
  beta :: real
  gamma :: real
  quat :: Quaternion
  absolute :: bool
  webkitCompassHeading :: "real option"
  webkitCompassAccuracy :: "real option"

type_synonym AccelerationEvent = "AccelerationDetail CustomEvent"
type_synonym OrientationEvent = "OrientationDetail CustomEvent"

datatype MotionObserverEvent = OrientationEv OrientationEvent | AccelerationEv AccelerationEvent

text \<open>The raw platform events. A field that may be \<^verbatim>\<open>null\<close> is an option; the compass pair is
  present exactly when the property \<^verbatim>\<open>webkitCompassHeading\<close> is in the event.\<close>

record DeviceOrientationEvent =
  dev_alpha :: "real option"
  dev_beta :: "real option"
  dev_gamma :: "real option"
  dev_absolute :: bool
  dev_webkitCompass :: "(real \<times> real option) option"

type_synonym DeviceAcceleration = "real option \<times> real option \<times> real option"

record DeviceMotionEvent =
  dev_acceleration :: "DeviceAcceleration option"
  dev_accelerationIncludingGravity :: "DeviceAcceleration option"
  dev_interval :: real

subsection \<open>Constants\<close>

definition DEG_TO_RAD :: real where
  "DEG_TO_RAD = pi / 180"

definition GRAVITY :: real where
  "GRAVITY = 9.80665"

definition MEASUREMENT_EPSILON :: int where
  "MEASUREMENT_EPSILON = 20"

subsection \<open>Math helper functions\<close>

fun vecSub :: "Vector \<Rightarrow> Vector \<Rightarrow> Vector" where
  "vecSub (aX, aY, aZ) (bX, bY, bZ) = (aX - bX, aY - bY, aZ - bZ)"

fun vecApplyQuat :: "Vector \<Rightarrow> Quaternion \<Rightarrow> Vector" where
  "vecApplyQuat (vX, vY, vZ) (qX, qY, qZ, qW) =
     (let tX = 2 * (qY * vZ - qZ * vY);
          tY = 2 * (qZ * vX - qX * vZ);
          tZ = 2 * (qX * vY - qY * vX)
      in (vX + qW * tX + qY * tZ - qZ * tY,
          vY + qW * tY + qZ * tX - qX * tZ,
          vZ + qW * tZ + qX * tY - qY * tX))"

fun quatFromEulerYXZ :: "Vector \<Rightarrow> Quaternion" where
  "quatFromEulerYXZ (x, y, z) =
     (let c1 = cos (x / 2); c2 = cos (y / 2); c3 = cos (z / 2);
          s1 = sin (x / 2); s2 = sin (y / 2); s3 = sin (z / 2)
      in (s1 * c2 * c3 + c1 * s2 * s3,
          c1 * s2 * c3 - s1 * c2 * s3,
          c1 * c2 * s3 - s1 * s2 * c3,
          c1 * c2 * c3 + s1 * s2 * s3))"

fun quatMultiply :: "Quaternion \<Rightarrow> Quaternion \<Rightarrow> Quaternion" where
  "quatMultiply (qax, qay, qaz, qaw) (qbx, qby, qbz, qbw) =
     (qax * qbw + qaw * qbx + qay * qbz - qaz * qby,
      qay * qbw + qaw * qby + qaz * qbx - qax * qbz,
      qaz * qbw + qaw * qbz + qax * qby - qay * qbx,
      qaw * qbw - qax * qbx - qay * qby - qaz * qbz)"

definition orientationToQuat :: "real \<Rightarrow> real \<Rightarrow> real \<Rightarrow> Quaternion" where
  "orientationToQuat a b g =
     quatMultiply (quatFromEulerYXZ (b, a, - g)) (- sqrt 0.5, 0, 0, sqrt 0.5)"

fun matFromQuat :: "Quaternion \<Rightarrow> Matrix" where
  "matFromQuat (x, y, z, w) =
     (let x2 = x + x; y2 = y + y; z2 = z + z;
          xx = x * x2; xy = x * y2; xz = x * z2;
          yy = y * y2; yz = y * z2; zz = z * z2;
          wx = w * x2; wy = w * y2; wz = w * z2
      in [1 - (yy + zz), xy - wz, xz + wy, 0,
          xy + wz, 1 - (xx + zz), yz - wx, 0,
          xz - wy, yz + wx, 1 - (xx + yy), 0,
          0, 0, 0, 1])"

text \<open>The lazy accessor \<^verbatim>\<open>mat\<close> of an orientation event.\<close>

definition mat :: "OrientationDetail \<Rightarrow> Matrix" where
  "mat d = matFromQuat (quat d)"

text \<open>The squared-component sum of a quaternion (what the unit invariant speaks about).\<close>

fun quatNormSq :: "Quaternion \<Rightarrow> real" where
  "quatNormSq (x, y, z, w) = x * x + y * y + z * z + w * w"

subsection \<open>Event creation\<close>

definition createEvent :: "string \<Rightarrow> 'd \<Rightarrow> 'd CustomEvent" where
  "createEvent n d = \<lparr>evName = n, detail = d, cancelBubble = False\<rparr>"

text \<open>\<^verbatim>\<open>x ?? d\<close>\<close>

definition orElse :: "'a option \<Rightarrow> 'a \<Rightarrow> 'a" where
  "orElse v d = (case v of None \<Rightarrow> d | Some x \<Rightarrow> x)"

text \<open>\<^verbatim>\<open>e.acceleration?.x\<close> and its siblings: \<^verbatim>\<open>undefined\<close> on a missing reading.\<close>

definition axisX :: "DeviceAcceleration option \<Rightarrow> real option" where
  "axisX a = (case a of None \<Rightarrow> None | Some (x, y, z) \<Rightarrow> x)"

definition axisY :: "DeviceAcceleration option \<Rightarrow> real option" where
  "axisY a = (case a of None \<Rightarrow> None | Some (x, y, z) \<Rightarrow> y)"

definition axisZ :: "DeviceAcceleration option \<Rightarrow> real option" where
  "axisZ a = (case a of None \<Rightarrow> None | Some (x, y, z) \<Rightarrow> z)"

definition orientationEventFromDevice :: "DeviceOrientationEvent \<Rightarrow> OrientationEvent" where
  "orientationEventFromDevice e =
     (let a = orElse (dev_alpha e) 0 * DEG_TO_RAD;
          b = orElse (dev_beta e) 0 * DEG_TO_RAD;
          g = orElse (dev_gamma e) 0 * DEG_TO_RAD;
          q = orientationToQuat a b g
      in createEvent ''orientation''
           \<lparr>alpha = a, beta = b, gamma = g, quat = q, absolute = dev_absolute e,
            webkitCompassHeading =
              (case dev_webkitCompass e of None \<Rightarrow> None
               | Some (h, ac) \<Rightarrow> Some (h * DEG_TO_RAD)),
            webkitCompassAccuracy =
              (case dev_webkitCompass e of None \<Rightarrow> None
               | Some (h, ac) \<Rightarrow> Some (orElse ac 0 * DEG_TO_RAD))\<rparr>)"

text \<open>\<^verbatim>\<open>IS_IOS\<close> is a constant of the page, computed once; it is the argument \<open>ios\<close>.\<close>

definition iosSign :: "bool \<Rightarrow> real" where
  "iosSign ios = (if ios then - 1 else 1)"

definition accelerationEventFromDevice :: "bool \<Rightarrow> DeviceMotionEvent \<Rightarrow> AccelerationEvent" where
  "accelerationEventFromDevice ios e =
     createEvent ''acceleration''
       \<lparr>acc = (orElse (axisX (dev_acceleration e)) 0 * iosSign ios,
               orElse (axisY (dev_acceleration e)) 0 * iosSign ios,
               orElse (axisZ (dev_acceleration e)) 0 * iosSign ios),
        interval = dev_interval e,
        inaccurate = False\<rparr>"

definition accelerationInclGravityEventFromDevice :: "bool \<Rightarrow> DeviceMotionEvent \<Rightarrow> AccelerationEvent" where
  "accelerationInclGravityEventFromDevice ios e =
     createEvent ''accelerationInclGravity''
       \<lparr>acc = (orElse (axisX (dev_accelerationIncludingGravity e)) 0 * iosSign ios,
               orElse (axisY (dev_accelerationIncludingGravity e)) GRAVITY * iosSign ios,
               orElse (axisZ (dev_accelerationIncludingGravity e)) 0 * iosSign ios),
        interval = dev_interval e,
        inaccurate = False\<rparr>"

definition accelerationEventFromAccInclGravityEventAndOrientationQuat ::
    "AccelerationEvent \<Rightarrow> Quaternion \<Rightarrow> AccelerationEvent" where
  "accelerationEventFromAccInclGravityEventAndOrientationQuat e q =
     createEvent ''acceleration''
       \<lparr>acc = vecSub (acc (detail e)) (vecApplyQuat (0, - GRAVITY, 0) q),
        interval = interval (detail e),
        inaccurate = True\<rparr>"

subsection \<open>Listeners and the observer's state\<close>

text \<open>
  A listener is a callback identified by \<open>ident\<close>. The only effect of a callback that the
  dispatcher reads is whether it calls \<^verbatim>\<open>stopPropagation\<close> (or \<^verbatim>\<open>stopImmediatePropagation\<close>), which sets
  \<^verbatim>\<open>cancelBubble\<close> on the event; \<open>stopsPropagation\<close> says whether it does. Callbacks are assumed
  not to throw and not to call back into the observer while a dispatch is running.
\<close>

datatype Listener = Listener (ident: nat) (stopsPropagation: bool)

datatype Error = TypeError | PermissionRejected

text \<open>\<^verbatim>\<open>number | boolean | null\<close>\<close>

datatype Capability = CNull | CNumber int | CBool bool

record MotionObserver =
  observed :: "MotionType set"
  hasAbsoluteOrientation :: Capability
  hasAccelerationWithoutGravity :: Capability
  lastOrientationQuat :: "Quaternion option"
  callbacks :: "MotionType \<Rightarrow> Listener list option"
  onceCallbacks :: "MotionType \<Rightarrow> Listener list option"
  windowListeners :: "NativeEventType set"

text \<open>One call of \<^verbatim>\<open>#triggerCallbacks\<close>: the type, the event as it was passed in, and the
  listeners that were invoked, in the order of their invocation.\<close>

datatype Dispatch = Dispatch (dispatchType: MotionType) (dispatchEvent: MotionObserverEvent)
  (invoked: "Listener list")

type_synonym Result = "MotionObserver \<times> Dispatch list \<times> Error option"

text \<open>\<^verbatim>\<open>Set.prototype.add\<close> and \<^verbatim>\<open>Set.prototype.delete\<close> on an insertion-ordered set.\<close>

definition setAdd :: "'a \<Rightarrow> 'a list \<Rightarrow> 'a list" where
  "setAdd x xs = (if x \<in> set xs then xs else xs @ [x])"

definition setDelete :: "'a \<Rightarrow> 'a list \<Rightarrow> 'a list" where
  "setDelete x xs = removeAll x xs"

definition allMotionTypes :: "MotionType list" where
  "allMotionTypes = [Orientation, AccelerationInclGravity, Acceleration]"

text \<open>\<^verbatim>\<open>new MotionObserver()\<close>\<close>

definition newMotionObserver :: MotionObserver where
  "newMotionObserver =
     \<lparr>observed = {},
      hasAbsoluteOrientation = CNull,
      hasAccelerationWithoutGravity = CNull,
      lastOrientationQuat = None,
      callbacks = map_of (map (\<lambda>n. (n, [])) allMotionTypes),
      onceCallbacks = map_of (map (\<lambda>n. (n, [])) allMotionTypes),
      windowListeners = {}\<rparr>"

subsection \<open>Dispatch\<close>

fun isCancelled :: "MotionObserverEvent \<Rightarrow> bool" where
  "isCancelled (OrientationEv e) = cancelBubble e"
| "isCancelled (AccelerationEv e) = cancelBubble e"

fun stopPropagation :: "MotionObserverEvent \<Rightarrow> MotionObserverEvent" where
  "stopPropagation (OrientationEv e) = OrientationEv (e\<lparr>cancelBubble := True\<rparr>)"
| "stopPropagation (AccelerationEv e) = AccelerationEv (e\<lparr>cancelBubble := True\<rparr>)"

text \<open>\<^verbatim>\<open>cb(event)\<close>\<close>

definition invoke :: "Listener \<Rightarrow> MotionObserverEvent \<Rightarrow> MotionObserverEvent" where
  "invoke cb ev = (if stopsPropagation cb then stopPropagation ev else ev)"

text \<open>
  The body shared by the two \<^verbatim>\<open>for\<close> loops of \<^verbatim>\<open>#triggerCallbacks\<close>: call each listener, and
  leave the loop after a call that finds \<^verbatim>\<open>event.cancelBubble\<close> set. The result is the
  listeners called, the event, and whether the loop was left early.
\<close>

fun callEach :: "Listener list \<Rightarrow> MotionObserverEvent \<Rightarrow> Listener list \<times> MotionObserverEvent \<times> bool" where
  "callEach [] ev = ([], ev, False)"
| "callEach (cb # cbs) ev =
     (let ev' = invoke cb ev in
      if isCancelled ev' then ([cb], ev', True)
      else (case callEach cbs ev' of (tr, ev'', stopped) \<Rightarrow> (cb # tr, ev'', stopped)))"

text \<open>
  \<^verbatim>\<open>#triggerCallbacks\<close>. \<^verbatim>\<open>this.#callbacks.get(type)!\<close> is \<^verbatim>\<open>undefined\<close> when the map has no key
  for the type, and iterating over it raises a \<^verbatim>\<open>TypeError\<close>; so does the one-shot map, after
  the persistent listeners have run. The persistent loop \<^verbatim>\<open>return\<close>s where the one-shot loop
  \<^verbatim>\<open>break\<close>s: only the second reaches the \<^verbatim>\<open>clear()\<close> of the one-shot set.
\<close>

definition triggerCallbacks :: "MotionType \<Rightarrow> MotionObserverEvent \<Rightarrow> MotionObserver \<Rightarrow> Result" where
  "triggerCallbacks type event s =
     (case callbacks s type of
        None \<Rightarrow> (s, [Dispatch type event []], Some TypeError)
      | Some cbs \<Rightarrow>
          (case callEach cbs event of
             (tr1, ev1, stopped) \<Rightarrow>
               if stopped then (s, [Dispatch type event tr1], None)
               else
                 (case onceCallbacks s type of
                    None \<Rightarrow> (s, [Dispatch type event tr1], Some TypeError)
                  | Some ocbs \<Rightarrow>
                      (case callEach ocbs ev1 of
                         (tr2, ev2, stopped2) \<Rightarrow>
                           (s\<lparr>onceCallbacks := (onceCallbacks s)(type \<mapsto> [])\<rparr>,
                            [Dispatch type event (tr1 @ tr2)], None)))))"

text \<open>Sequencing of two statements of a handler: an exception of the first skips the second.\<close>

definition andThen :: "Result \<Rightarrow> (MotionObserver \<Rightarrow> Result) \<Rightarrow> Result" where
  "andThen r f =
     (case r of
        (s, out, Some e) \<Rightarrow> (s, out, Some e)
      | (s, out, None) \<Rightarrow> (case f s of (s', out', err) \<Rightarrow> (s', out @ out', err)))"

definition skip :: "MotionObserver \<Rightarrow> Result" where
  "skip s = (s, [], None)"

subsection \<open>The handlers of the raw events\<close>

text \<open>The last three statements of \<^verbatim>\<open>#handleOrientation\<close>, reached when no branch returns.\<close>

definition emitOrientation :: "DeviceOrientationEvent \<Rightarrow> MotionObserver \<Rightarrow> Result" where
  "emitOrientation e s =
     (let event = orientationEventFromDevice e;
          s1 = s\<lparr>lastOrientationQuat := Some (quat (detail event))\<rparr>
      in if Orientation \<in> observed s1 then triggerCallbacks Orientation (OrientationEv event) s1
         else skip s1)"

definition handleOrientation :: "int \<Rightarrow> DeviceOrientationEvent \<Rightarrow> MotionObserver \<Rightarrow> Result" where
  "handleOrientation now e s =
     (case hasAbsoluteOrientation s of
        CNull \<Rightarrow> skip (s\<lparr>hasAbsoluteOrientation := CNumber (now + MEASUREMENT_EPSILON)\<rparr>)
      | CNumber deadline \<Rightarrow>
          if deadline < now then emitOrientation e (s\<lparr>hasAbsoluteOrientation := CBool False\<rparr>)
          else skip s
      | CBool True \<Rightarrow> skip s
      | CBool False \<Rightarrow> emitOrientation e s)"

definition handleOrientationAbsolute :: "DeviceOrientationEvent \<Rightarrow> MotionObserver \<Rightarrow> Result" where
  "handleOrientationAbsolute e s =
     (let s1 = (if hasAbsoluteOrientation s \<noteq> CBool True
                then s\<lparr>hasAbsoluteOrientation := CBool True,
                       windowListeners := windowListeners s - {DeviceOrientation}\<rparr>
                else s)
      in if Orientation \<in> observed s1 then
           (let event = orientationEventFromDevice e;
                s2 = s1\<lparr>lastOrientationQuat := Some (quat (detail event))\<rparr>
            in triggerCallbacks Orientation (OrientationEv event) s2)
         else skip s1)"

text \<open>The test of \<^verbatim>\<open>#handleMotion\<close> for a gravity-exclusive reading on some axis.\<close>

definition accelerationNonZero :: "DeviceMotionEvent \<Rightarrow> bool" where
  "accelerationNonZero e =
     (orElse (axisX (dev_acceleration e)) 0 \<noteq> 0
      \<or> orElse (axisY (dev_acceleration e)) 0 \<noteq> 0
      \<or> orElse (axisZ (dev_acceleration e)) 0 \<noteq> 0)"

text \<open>
  \<^verbatim>\<open>#handleMotion\<close>. While the capability is not a boolean the handler only updates it and
  dispatches nothing. In the derived path \<^verbatim>\<open>this.#lastOrientationQuat!\<close> is read when the adjusted
  event is built; were it \<^verbatim>\<open>null\<close> there, destructuring it would raise a \<^verbatim>\<open>TypeError\<close>.
\<close>

definition handleMotion :: "bool \<Rightarrow> int \<Rightarrow> DeviceMotionEvent \<Rightarrow> MotionObserver \<Rightarrow> Result" where
  "handleMotion ios now e s =
     (case hasAccelerationWithoutGravity s of
        CBool b \<Rightarrow>
          if b then
            andThen
              (if Acceleration \<in> observed s
               then triggerCallbacks Acceleration (AccelerationEv (accelerationEventFromDevice ios e)) s
               else skip s)
              (\<lambda>s1. if AccelerationInclGravity \<in> observed s1
                    then triggerCallbacks AccelerationInclGravity
                           (AccelerationEv (accelerationInclGravityEventFromDevice ios e)) s1
                    else skip s1)
          else
            (let sendAdjustedEvent = (Acceleration \<in> observed s \<and> lastOrientationQuat s \<noteq> None) in
             if AccelerationInclGravity \<in> observed s \<or> sendAdjustedEvent then
               (let event = accelerationInclGravityEventFromDevice ios e in
                andThen
                  (if AccelerationInclGravity \<in> observed s
                   then triggerCallbacks AccelerationInclGravity (AccelerationEv event) s
                   else skip s)
                  (\<lambda>s1. if sendAdjustedEvent then
                          (case lastOrientationQuat s1 of
                             Some q \<Rightarrow>
                               triggerCallbacks Acceleration
                                 (AccelerationEv
                                    (accelerationEventFromAccInclGravityEventAndOrientationQuat event q)) s1
                           | None \<Rightarrow> (s1, [], Some TypeError))
                        else skip s1))
             else skip s)
      | CNull \<Rightarrow>
          if accelerationNonZero e then skip (s\<lparr>hasAccelerationWithoutGravity := CBool True\<rparr>)
          else skip (s\<lparr>hasAccelerationWithoutGravity := CNumber (now + MEASUREMENT_EPSILON)\<rparr>)
      | CNumber deadline \<Rightarrow>
          if accelerationNonZero e then skip (s\<lparr>hasAccelerationWithoutGravity := CBool True\<rparr>)
          else if deadline < now then skip (s\<lparr>hasAccelerationWithoutGravity := CBool False\<rparr>)
          else skip s)"

subsection \<open>Listener wiring\<close>

text \<open>\<open>windowListeners\<close> holds the raw event types for which this observer's handler is
  registered on the window; each type has one handler.\<close>

definition removeListeners :: "MotionObserver \<Rightarrow> MotionObserver" where
  "removeListeners s =
     s\<lparr>windowListeners := windowListeners s - {DeviceMotion} - {DeviceOrientation} - {DeviceOrientationAbsolute}\<rparr>"

fun nativeEventsFor :: "MotionType \<Rightarrow> NativeEventType set" where
  "nativeEventsFor Orientation = {DeviceOrientation, DeviceOrientationAbsolute}"
| "nativeEventsFor AccelerationInclGravity = {DeviceMotion}"
| "nativeEventsFor Acceleration = {DeviceMotion, DeviceOrientation}"

definition addListeners :: "MotionObserver \<Rightarrow> MotionObserver" where
  "addListeners s =
     (let s1 = removeListeners s;
          requiredNativeEvents = \<Union> (nativeEventsFor ` observed s1)
      in s1\<lparr>windowListeners := windowListeners s1 \<union> requiredNativeEvents\<rparr>)"

subsection \<open>The public interface\<close>

datatype PermissionAnswer = Granted | Denied | Failed


definition filterArr :: "MotionType list option \<Rightarrow> MotionType list" where
  "filterArr f = orElse f allMotionTypes"

text \<open>
  \<^verbatim>\<open>observe\<close> is an async function: \<open>observeCall\<close> is what runs up to the \<^verbatim>\<open>await\<close>, and
  \<open>observeSettle\<close> what runs when the permission promise has settled (\<open>granted\<close>: it resolved).
\<close>

definition observeCall :: "MotionType list option \<Rightarrow> MotionObserver \<Rightarrow> MotionObserver" where
  "observeCall f s = s\<lparr>observed := observed s \<union> set (filterArr f)\<rparr>"

definition observeSettle :: "bool \<Rightarrow> MotionObserver \<Rightarrow> MotionObserver \<times> Error option" where
  "observeSettle granted s = (if granted then (addListeners s, None) else (s, Some PermissionRejected))"


definition unobserve :: "MotionType list option \<Rightarrow> MotionObserver \<Rightarrow> MotionObserver" where
  "unobserve f s = addListeners (s\<lparr>observed := observed s - set (filterArr f)\<rparr>)"

text \<open>\<^verbatim>\<open>Map.prototype.clear\<close> removes the keys of both maps; the capability flags are not reset.\<close>

definition disconnect :: "MotionObserver \<Rightarrow> MotionObserver" where
  "disconnect s =
     (removeListeners (s\<lparr>observed := {}\<rparr>))
       \<lparr>callbacks := Map.empty, onceCallbacks := Map.empty, lastOrientationQuat := None\<rparr>"

text \<open>The listener methods call \<^verbatim>\<open>add\<close> or \<^verbatim>\<open>delete\<close> on \<^verbatim>\<open>get(event)!\<close>: a \<^verbatim>\<open>TypeError\<close> when the key is
  missing. \<^verbatim>\<open>unbind\<close> looks at the one-shot set only when the persistent set did not hold the
  callback.\<close>

definition bind :: "MotionType \<Rightarrow> Listener \<Rightarrow> MotionObserver \<Rightarrow> Error + MotionObserver" where
  "bind event cb s =
     (case callbacks s event of
        None \<Rightarrow> Inl TypeError
      | Some cbs \<Rightarrow> Inr (s\<lparr>callbacks := (callbacks s)(event \<mapsto> setAdd cb cbs)\<rparr>))"

definition addEventListener :: "MotionType \<Rightarrow> Listener \<Rightarrow> MotionObserver \<Rightarrow> Error + MotionObserver" where
  "addEventListener event cb s = bind event cb s"

definition on :: "MotionType \<Rightarrow> Listener \<Rightarrow> MotionObserver \<Rightarrow> Error + MotionObserver" where
  "on event cb s = bind event cb s"

definition once :: "MotionType \<Rightarrow> Listener \<Rightarrow> MotionObserver \<Rightarrow> Error + MotionObserver" where
  "once event cb s =
     (case onceCallbacks s event of
        None \<Rightarrow> Inl TypeError
      | Some cbs \<Rightarrow> Inr (s\<lparr>onceCallbacks := (onceCallbacks s)(event \<mapsto> setAdd cb cbs)\<rparr>))"

definition unbind :: "MotionType \<Rightarrow> Listener \<Rightarrow> MotionObserver \<Rightarrow> Error + (bool \<times> MotionObserver)" where
  "unbind event cb s =
     (case callbacks s event of
        None \<Rightarrow> Inl TypeError
      | Some cbs \<Rightarrow>
          if cb \<in> set cbs
          then Inr (True, s\<lparr>callbacks := (callbacks s)(event \<mapsto> setDelete cb cbs)\<rparr>)
          else
            (case onceCallbacks s event of
               None \<Rightarrow> Inl TypeError
             | Some ocbs \<Rightarrow>
                 Inr (cb \<in> set ocbs, s\<lparr>onceCallbacks := (onceCallbacks s)(event \<mapsto> setDelete cb ocbs)\<rparr>)))"

definition removeEventListener :: "MotionType \<Rightarrow> Listener \<Rightarrow> MotionObserver \<Rightarrow> Error + (bool \<times> MotionObserver)" where
  "removeEventListener event cb s = unbind event cb s"

definition off :: "MotionType \<Rightarrow> Listener \<Rightarrow> MotionObserver \<Rightarrow> Error + (bool \<times> MotionObserver)" where
  "off event cb s = unbind event cb s"

subsection \<open>Sessions: what happens to an observer, one step at a time\<close>

datatype NativeEvent =
    OrientationRaw DeviceOrientationEvent
  | OrientationAbsoluteRaw DeviceOrientationEvent
  | MotionRaw DeviceMotionEvent

text \<open>
  The window delivers a raw event, at time \<open>now\<close>, to the handler registered for it, if one is;
  the page calls a method of the observer. A method call that throws leaves the state as it
  was when the exception was raised.
\<close>

datatype Action =
    Deliver NativeEvent int
  | ObserveCall "MotionType list option"
  | ObserveSettle bool
  | Unobserve "MotionType list option"
  | Disconnect
  | Bind MotionType Listener
  | Once MotionType Listener
  | Unbind MotionType Listener

fun deliver :: "bool \<Rightarrow> NativeEvent \<Rightarrow> int \<Rightarrow> MotionObserver \<Rightarrow> Result" where
  "deliver ios (OrientationRaw e) now s =
     (if DeviceOrientation \<in> windowListeners s then handleOrientation now e s else skip s)"
| "deliver ios (OrientationAbsoluteRaw e) now s =
     (if DeviceOrientationAbsolute \<in> windowListeners s then handleOrientationAbsolute e s else skip s)"
| "deliver ios (MotionRaw e) now s =
     (if DeviceMotion \<in> windowListeners s then handleMotion ios now e s else skip s)"

fun step :: "bool \<Rightarrow> Action \<Rightarrow> MotionObserver \<Rightarrow> Result" where
  "step ios (Deliver ev now) s = deliver ios ev now s"
| "step ios (ObserveCall f) s = skip (observeCall f s)"
| "step ios (ObserveSettle granted) s =
     (case observeSettle granted s of (s', err) \<Rightarrow> (s', [], err))"
| "step ios (Unobserve f) s = skip (unobserve f s)"
| "step ios Disconnect s = skip (disconnect s)"
| "step ios (Bind t cb) s = (case bind t cb s of Inl err \<Rightarrow> (s, [], Some err) | Inr s' \<Rightarrow> skip s')"
| "step ios (Once t cb) s = (case once t cb s of Inl err \<Rightarrow> (s, [], Some err) | Inr s' \<Rightarrow> skip s')"
| "step ios (Unbind t cb) s =
     (case unbind t cb s of Inl err \<Rightarrow> (s, [], Some err) | Inr (found, s') \<Rightarrow> skip s')"

text \<open>A session: the state after a list of actions, and every dispatch made on the way.
  An exception ends the action that raised it, not the session.\<close>

fun run :: "bool \<Rightarrow> Action list \<Rightarrow> MotionObserver \<Rightarrow> MotionObserver \<times> Dispatch list" where
  "run ios [] s = (s, [])"
| "run ios (a # as) s =
     (case step ios a s of
        (s1, out, err) \<Rightarrow> (case run ios as s1 of (s2, out') \<Rightarrow> (s2, out @ out')))"

subsection \<open>Auxiliary notions and sample sessions\<close>

text \<open>An event as \<open>createEvent\<close> makes it, four listeners of which \<open>B\<close> stops propagation,
  and the states of a new observer after registering some of them for \<open>Orientation\<close>.\<close>

definition sampleEvent :: MotionObserverEvent where
  "sampleEvent =
     AccelerationEv (createEvent ''acceleration'' \<lparr>acc = (0, 0, 0), interval = 16, inaccurate = False\<rparr>)"

definition listenerA :: Listener where "listenerA = Listener 0 False"
definition listenerB :: Listener where "listenerB = Listener 1 True"
definition listenerC :: Listener where "listenerC = Listener 2 False"
definition listenerO :: Listener where "listenerO = Listener 3 False"

definition stateO :: MotionObserver where
  "stateO = projr (once Orientation listenerO newMotionObserver)"
definition stateOA :: MotionObserver where
  "stateOA = projr (bind Orientation listenerA stateO)"
definition stateOAB :: MotionObserver where
  "stateOAB = projr (bind Orientation listenerB stateOA)"
definition stateOABC :: MotionObserver where
  "stateOABC = projr (bind Orientation listenerC stateOAB)"
definition stateOB :: MotionObserver where
  "stateOB = projr (bind Orientation listenerB stateO)"

text \<open>Raw events: a device lying level, and a session in which the grace window of the
  absolute-orientation capability runs out before an absolute event arrives late.\<close>

definition rawLevel :: DeviceOrientationEvent where
  "rawLevel = \<lparr>dev_alpha = Some 0, dev_beta = Some 0, dev_gamma = Some 0, dev_absolute = False,
               dev_webkitCompass = None\<rparr>"

definition rawLevelAbsolute :: DeviceOrientationEvent where
  "rawLevelAbsolute = rawLevel\<lparr>dev_absolute := True\<rparr>"

definition timeoutSession :: "Action list" where
  "timeoutSession =
     [ObserveCall (Some [Orientation]), ObserveSettle True,
      Deliver (OrientationRaw rawLevel) 0, Deliver (OrientationRaw rawLevel) 21]"

definition lateAbsoluteSession :: "Action list" where
  "lateAbsoluteSession = timeoutSession @ [Deliver (OrientationAbsoluteRaw rawLevelAbsolute) 22]"

text \<open>Two states that differ at most in their one-shot collections.\<close>

definition sameButOnce :: "MotionObserver \<Rightarrow> MotionObserver \<Rightarrow> bool" where
  "sameButOnce s s' = (s' = s\<lparr>onceCallbacks := onceCallbacks s'\<rparr>)"

text \<open>A motion event of a platform that reports no gravity-exclusive acceleration and no
  gravity-inclusive reading, and the sessions that resolve both capabilities.\<close>

definition rawStill :: DeviceMotionEvent where
  "rawStill = \<lparr>dev_acceleration = Some (Some 0, Some 0, Some 0),
               dev_accelerationIncludingGravity = None, dev_interval = 16\<rparr>"

definition settledSession :: "Action list" where
  "settledSession =
     [ObserveCall None, ObserveSettle True,
      Deliver (OrientationRaw rawLevel) 0, Deliver (OrientationRaw rawLevel) 21,
      Deliver (MotionRaw rawStill) 30, Deliver (MotionRaw rawStill) 51]"

definition settledState :: MotionObserver where
  "settledState = fst (run False settledSession newMotionObserver)"

definition supersededState :: MotionObserver where
  "supersededState = fst (run False lateAbsoluteSession newMotionObserver)"

text \<open>A list of relative-orientation events, each with the time of its delivery.\<close>

definition relativeEvents :: "(int \<times> DeviceOrientationEvent) list \<Rightarrow> Action list" where
  "relativeEvents rels = map (\<lambda>(t, e). Deliver (OrientationRaw e) t) rels"

text \<open>A new observer after \<^verbatim>\<open>observe(["orientation"])\<close> was granted.\<close>

definition observingState :: MotionObserver where
  "observingState =
     fst (run False [ObserveCall (Some [Orientation]), ObserveSettle True] newMotionObserver)"

text \<open>The orientation path is live: relative events are delivered, pass the capability
  check and find the listener collections of \<open>Orientation\<close>.\<close>

definition relativeLive :: "Listener list \<Rightarrow> MotionObserver \<Rightarrow> bool" where
  "relativeLive cbs s =
     (hasAbsoluteOrientation s = CBool False \<and> DeviceOrientation \<in> windowListeners s
      \<and> Orientation \<in> observed s \<and> callbacks s Orientation = Some cbs
      \<and> onceCallbacks s Orientation \<noteq> None)"

definition listeningState :: MotionObserver where
  "listeningState = projr (bind Orientation listenerA observingState)"

text \<open>Both listener maps have lost their keys, as after \<^verbatim>\<open>disconnect()\<close>.\<close>

definition listenerSetsGone :: "MotionObserver \<Rightarrow> bool" where
  "listenerSetsGone s = (callbacks s = Map.empty \<and> onceCallbacks s = Map.empty)"

text \<open>The steps that can set the last-known orientation.\<close>

fun isOrientationDelivery :: "Action \<Rightarrow> bool" where
  "isOrientationDelivery (Deliver (OrientationRaw e) now) = True"
| "isOrientationDelivery (Deliver (OrientationAbsoluteRaw e) now) = True"
| "isOrientationDelivery a = False"

text \<open>A device held upright.\<close>

definition rawUpright :: DeviceOrientationEvent where
  "rawUpright = \<lparr>dev_alpha = Some 0, dev_beta = Some 90, dev_gamma = Some 0, dev_absolute = False,
                 dev_webkitCompass = None\<rparr>"

text \<open>A session of motion events only, which resolves the gravity-exclusion capability to
  false and never sets the last-known orientation.\<close>

definition fusedSession :: "Action list" where
  "fusedSession =
     [ObserveCall (Some [Acceleration, AccelerationInclGravity]), ObserveSettle True,
      Deliver (MotionRaw rawStill) 0, Deliver (MotionRaw rawStill) 21]"

definition fusedState :: MotionObserver where
  "fusedState = fst (run False fusedSession newMotionObserver)"

text \<open>The same session after a first relative-orientation event has opened the grace window.\<close>

definition waitingState :: MotionObserver where
  "waitingState = fst (run False [Deliver (OrientationRaw rawLevel) 100] fusedState)"

text \<open>What a step may do once the listener sets are gone: it leaves the maps as they are,
  invokes no listener, and if it makes a dispatch it ends in a \<^verbatim>\<open>TypeError\<close>.\<close>

definition quietFailure :: "MotionObserver \<Rightarrow> Result \<Rightarrow> bool" where
  "quietFailure s r =
     (callbacks (fst r) = callbacks s \<and> onceCallbacks (fst r) = onceCallbacks s
      \<and> list_all (\<lambda>d. invoked d = []) (fst (snd r))
      \<and> (fst (snd r) = [] \<or> snd (snd r) = Some TypeError))"

text \<open>Observing again after a disconnect.\<close>

definition reobserveSession :: "Action list" where
  "reobserveSession =
     [ObserveCall None, ObserveSettle True, Deliver (OrientationRaw rawLevel) 100]"

section \<open>The math kernel\<close>

lemma euler_norm_factors:
  fixes c1 c2 c3 s1 s2 s3 :: real
  shows "(s1 * c2 * c3 + c1 * s2 * s3) * (s1 * c2 * c3 + c1 * s2 * s3)
       + (c1 * s2 * c3 - s1 * c2 * s3) * (c1 * s2 * c3 - s1 * c2 * s3)
       + (c1 * c2 * s3 - s1 * s2 * c3) * (c1 * c2 * s3 - s1 * s2 * c3)
       + (c1 * c2 * c3 + s1 * s2 * s3) * (c1 * c2 * c3 + s1 * s2 * s3)
       = (s1 * s1 + c1 * c1) * (s2 * s2 + c2 * c2) * (s3 * s3 + c3 * c3)"
  by (simp add: algebra_simps)

lemma sin_cos_sq: "sin (t::real) * sin t + cos t * cos t = 1"
  using sin_cos_squared_add [of t] by (simp add: power2_eq_square)

lemma quatFromEulerYXZ_unit: "quatNormSq (quatFromEulerYXZ v) = 1"
proof (cases v)
  case (fields x y z)
  show ?thesis
    unfolding fields quatFromEulerYXZ.simps Let_def quatNormSq.simps euler_norm_factors
    by (simp only: sin_cos_sq mult_1)
qed

text \<open>The squared-component sum is multiplicative under the Hamilton product.\<close>

lemma quatMultiply_norm: "quatNormSq (quatMultiply a b) = quatNormSq a * quatNormSq b"
proof (cases a)
  case A: (fields ax ay az aw)
  show ?thesis
  proof (cases b)
    case B: (fields bx "by" bz bw)
    show ?thesis unfolding A B by (simp add: algebra_simps)
  qed
qed

lemma correction_unit: "quatNormSq (- sqrt 0.5, 0, 0, sqrt 0.5) = 1"
  by simp

lemma orientationToQuat_unit: "quatNormSq (orientationToQuat a b g) = 1"
  unfolding orientationToQuat_def quatMultiply_norm quatFromEulerYXZ_unit correction_unit by simp

text \<open>
  Claim C8. For every Euler triple, the quaternion of \<open>quatFromEulerYXZ\<close> has squared-component
  sum 1, and so has the quaternion of the whole orientation path: \<open>orientationToQuat\<close> (the
  Euler conversion multiplied by the fixed correction quaternion), also as it is stored in the
  event that \<open>orientationEventFromDevice\<close> builds from any raw event.
\<close>

theorem quaternion_unit_norm:
  "quatNormSq (quatFromEulerYXZ v) = 1
   \<and> quatNormSq (orientationToQuat a b g) = 1
   \<and> quatNormSq (quat (detail (orientationEventFromDevice e))) = 1"
  by (simp add: quatFromEulerYXZ_unit orientationToQuat_unit orientationEventFromDevice_def
      createEvent_def Let_def)

section \<open>Dispatch\<close>

lemma invoke_quiet: "\<not> stopsPropagation cb \<Longrightarrow> invoke cb ev = ev"
  by (simp add: invoke_def)

lemma isCancelled_stopPropagation: "isCancelled (stopPropagation ev)"
  by (cases ev) simp_all

lemma invoke_stopper: "stopsPropagation cb \<Longrightarrow> isCancelled (invoke cb ev)"
  by (simp add: invoke_def isCancelled_stopPropagation)

lemma callEach_quiet:
  "\<forall>a\<in>set cbs. \<not> stopsPropagation a \<Longrightarrow> \<not> isCancelled ev \<Longrightarrow> callEach cbs ev = (cbs, ev, False)"
  by (induction cbs) (simp_all add: invoke_quiet)

lemma callEach_first_stopper:
  "\<forall>a\<in>set pre. \<not> stopsPropagation a \<Longrightarrow> stopsPropagation b \<Longrightarrow> \<not> isCancelled ev \<Longrightarrow>
   callEach (pre @ b # post) ev = (pre @ [b], invoke b ev, True)"
  by (induction pre) (simp_all add: invoke_quiet invoke_stopper Let_def)

lemma callEach_take: "\<exists>n. fst (callEach cbs ev) = take n cbs"
proof (induction cbs arbitrary: ev)
  case Nil
  then show ?case by simp
next
  case (Cons cb cbs)
  show ?case
  proof (cases "isCancelled (invoke cb ev)")
    case True
    then have "fst (callEach (cb # cbs) ev) = take 1 (cb # cbs)" by (simp add: Let_def)
    then show ?thesis by blast
  next
    case False
    from Cons.IH [of "invoke cb ev"] obtain n where "fst (callEach cbs (invoke cb ev)) = take n cbs" by blast
    with False have "fst (callEach (cb # cbs) ev) = take (Suc n) (cb # cbs)"
      by (auto simp: Let_def split: prod.splits)
    then show ?thesis by blast
  qed
qed

lemma triggerCallbacks_stopped:
  assumes "callbacks s t = Some (pre @ b # post)" "\<forall>a\<in>set pre. \<not> stopsPropagation a"
    "stopsPropagation b" "\<not> isCancelled ev"
  shows "triggerCallbacks t ev s = (s, [Dispatch t ev (pre @ [b])], None)"
  using assms by (simp add: triggerCallbacks_def callEach_first_stopper)

lemma triggerCallbacks_through:
  assumes "callbacks s t = Some cbs" "\<forall>a\<in>set cbs. \<not> stopsPropagation a"
    "onceCallbacks s t = Some ocbs" "\<not> isCancelled ev"
  shows "triggerCallbacks t ev s =
           (s\<lparr>onceCallbacks := (onceCallbacks s)(t \<mapsto> [])\<rparr>,
            [Dispatch t ev (cbs @ fst (callEach ocbs ev))], None)"
  using assms by (simp add: triggerCallbacks_def callEach_quiet split: prod.splits)

lemma bind_present:
  "callbacks s t = Some cbs \<Longrightarrow> bind t cb s = Inr (s\<lparr>callbacks := (callbacks s)(t \<mapsto> setAdd cb cbs)\<rparr>)"
  by (simp add: bind_def)

lemma once_present:
  "onceCallbacks s t = Some cbs \<Longrightarrow> once t cb s = Inr (s\<lparr>onceCallbacks := (onceCallbacks s)(t \<mapsto> setAdd cb cbs)\<rparr>)"
  by (simp add: once_def)

lemma three_bound:
  assumes "callbacks s t = Some []" "A \<noteq> B"
    "bind t A s = Inr s1" "bind t B s1 = Inr s2" "bind t C s2 = Inr s3"
  shows "\<exists>post. callbacks s3 t = Some ([A] @ B # post)"
proof -
  from assms(1,3) have s1: "callbacks s1 t = Some [A]" by (auto simp: bind_def setAdd_def)
  with assms(2,4) have s2: "callbacks s2 t = Some [A, B]" by (auto simp: bind_def setAdd_def)
  with assms(5) have "callbacks s3 t = Some (setAdd C [A, B])" by (auto simp: bind_def)
  then show ?thesis by (auto simp: setAdd_def)
qed

text \<open>
  Claim C1. In a dispatch pass of a motion type, the persistent listeners are invoked in
  insertion order. When the first listener that sets the propagation-stop signal is a
  persistent one, the pass invokes exactly the persistent listeners up to and including it:
  the persistent listeners after it and every one-shot listener are skipped (the state,
  and so the one-shot collection, is what it was). When no persistent listener sets the
  signal, all of them are invoked, in order, before any one-shot listener. With
  \<open>A\<close>, \<open>B\<close>, \<open>C\<close> bound in that order and \<open>B\<close> setting the signal, the pass invokes
  \<open>A\<close> and \<open>B\<close> only. The event is one that \<open>createEvent\<close> made: not yet cancelled.
\<close>

theorem dispatch_order_and_propagation_stop:
  assumes "\<not> isCancelled ev" and "callbacks s t = Some cbs"
  shows "(\<forall>pre b post. cbs = pre @ b # post \<and> (\<forall>a\<in>set pre. \<not> stopsPropagation a) \<and> stopsPropagation b
            \<longrightarrow> triggerCallbacks t ev s = (s, [Dispatch t ev (pre @ [b])], None))
       \<and> (\<forall>ocbs. (\<forall>a\<in>set cbs. \<not> stopsPropagation a) \<and> onceCallbacks s t = Some ocbs
            \<longrightarrow> (\<exists>n. triggerCallbacks t ev s =
                   (s\<lparr>onceCallbacks := (onceCallbacks s)(t \<mapsto> [])\<rparr>,
                    [Dispatch t ev (cbs @ take n ocbs)], None)))
       \<and> (\<forall>A B C s1 s2 s3. cbs = [] \<and> \<not> stopsPropagation A \<and> stopsPropagation B
            \<and> bind t A s = Inr s1 \<and> bind t B s1 = Inr s2 \<and> bind t C s2 = Inr s3
            \<longrightarrow> triggerCallbacks t ev s3 = (s3, [Dispatch t ev [A, B]], None))"
proof (intro conjI allI impI)
  fix pre b post
  assume "cbs = pre @ b # post \<and> (\<forall>a\<in>set pre. \<not> stopsPropagation a) \<and> stopsPropagation b"
  with assms show "triggerCallbacks t ev s = (s, [Dispatch t ev (pre @ [b])], None)"
    by (simp add: triggerCallbacks_stopped)
next
  fix ocbs
  assume h: "(\<forall>a\<in>set cbs. \<not> stopsPropagation a) \<and> onceCallbacks s t = Some ocbs"
  obtain n where "fst (callEach ocbs ev) = take n ocbs" using callEach_take by blast
  with h assms show "\<exists>n. triggerCallbacks t ev s =
       (s\<lparr>onceCallbacks := (onceCallbacks s)(t \<mapsto> [])\<rparr>, [Dispatch t ev (cbs @ take n ocbs)], None)"
    using triggerCallbacks_through [of s t cbs ocbs ev] by auto
next
  fix A B C s1 s2 s3
  assume h: "cbs = [] \<and> \<not> stopsPropagation A \<and> stopsPropagation B
            \<and> bind t A s = Inr s1 \<and> bind t B s1 = Inr s2 \<and> bind t C s2 = Inr s3"
  then have "A \<noteq> B" by auto
  with h assms obtain post where "callbacks s3 t = Some ([A] @ B # post)"
    using three_bound [of s t A B s1 s2 C s3] by auto
  with h assms show "triggerCallbacks t ev s3 = (s3, [Dispatch t ev [A, B]], None)"
    using triggerCallbacks_stopped [of s3 t "[A]" B post ev] by simp
qed


lemma new_callbacks: "callbacks newMotionObserver t = Some []"
  by (cases t) (simp_all add: newMotionObserver_def allMotionTypes_def)

lemma new_onceCallbacks: "onceCallbacks newMotionObserver t = Some []"
  by (cases t) (simp_all add: newMotionObserver_def allMotionTypes_def)

lemma sampleEvent_fresh: "\<not> isCancelled sampleEvent"
  by (simp add: sampleEvent_def createEvent_def)

lemma stateO_once: "once Orientation listenerO newMotionObserver = Inr stateO"
  by (simp add: stateO_def once_present [OF new_onceCallbacks])

lemma stateO_maps:
  "callbacks stateO Orientation = Some []" "onceCallbacks stateO Orientation = Some [listenerO]"
  by (simp_all add: stateO_def once_present [OF new_onceCallbacks] new_callbacks setAdd_def)

lemma stateOA_bind: "bind Orientation listenerA stateO = Inr stateOA"
  by (simp add: stateOA_def bind_present [OF stateO_maps(1)])

lemma stateOA_maps:
  "callbacks stateOA Orientation = Some [listenerA]" "onceCallbacks stateOA Orientation = Some [listenerO]"
  by (simp_all add: stateOA_def bind_present [OF stateO_maps(1)] stateO_maps setAdd_def)

lemma stateOAB_bind: "bind Orientation listenerB stateOA = Inr stateOAB"
  by (simp add: stateOAB_def bind_present [OF stateOA_maps(1)])

lemma stateOAB_maps:
  "callbacks stateOAB Orientation = Some [listenerA, listenerB]"
  "onceCallbacks stateOAB Orientation = Some [listenerO]"
  by (simp_all add: stateOAB_def bind_present [OF stateOA_maps(1)] stateOA_maps setAdd_def
      listenerA_def listenerB_def)

lemma stateOABC_bind: "bind Orientation listenerC stateOAB = Inr stateOABC"
  by (simp add: stateOABC_def bind_present [OF stateOAB_maps(1)])

lemma stateOABC_maps:
  "callbacks stateOABC Orientation = Some [listenerA, listenerB, listenerC]"
  "onceCallbacks stateOABC Orientation = Some [listenerO]"
  by (simp_all add: stateOABC_def bind_present [OF stateOAB_maps(1)] stateOAB_maps setAdd_def
      listenerA_def listenerB_def listenerC_def)

lemma stateOB_bind: "bind Orientation listenerB stateO = Inr stateOB"
  by (simp add: stateOB_def bind_present [OF stateO_maps(1)])

lemma stateOB_maps:
  "callbacks stateOB Orientation = Some [listenerB]" "onceCallbacks stateOB Orientation = Some [listenerO]"
  by (simp_all add: stateOB_def bind_present [OF stateO_maps(1)] stateO_maps setAdd_def)

text \<open>The scenario on a new observer with a one-shot listener \<open>O\<close> registered as well.\<close>

theorem dispatch_order_and_propagation_stop_witness:
  "\<not> isCancelled sampleEvent
   \<and> callbacks stateO Orientation = Some []
   \<and> onceCallbacks stateO Orientation = Some [listenerO]
   \<and> \<not> stopsPropagation listenerA \<and> stopsPropagation listenerB
   \<and> bind Orientation listenerA stateO = Inr stateOA
   \<and> bind Orientation listenerB stateOA = Inr stateOAB
   \<and> bind Orientation listenerC stateOAB = Inr stateOABC
   \<and> triggerCallbacks Orientation sampleEvent stateOABC
       = (stateOABC, [Dispatch Orientation sampleEvent [listenerA, listenerB]], None)
   \<and> onceCallbacks stateOABC Orientation = Some [listenerO]"
proof -
  have binds: "bind Orientation listenerA stateO = Inr stateOA
      \<and> bind Orientation listenerB stateOA = Inr stateOAB
      \<and> bind Orientation listenerC stateOAB = Inr stateOABC"
    by (simp add: stateOA_bind stateOAB_bind stateOABC_bind)
  have quiet: "\<not> stopsPropagation listenerA \<and> stopsPropagation listenerB"
    by (simp add: listenerA_def listenerB_def)
  from dispatch_order_and_propagation_stop [OF sampleEvent_fresh stateO_maps(1)]
  have "\<forall>A B C s1 s2 s3. [] = ([]::Listener list) \<and> \<not> stopsPropagation A \<and> stopsPropagation B
            \<and> bind Orientation A stateO = Inr s1 \<and> bind Orientation B s1 = Inr s2
            \<and> bind Orientation C s2 = Inr s3
            \<longrightarrow> triggerCallbacks Orientation sampleEvent s3
                = (s3, [Dispatch Orientation sampleEvent [A, B]], None)"
    by blast
  with binds quiet
  have "triggerCallbacks Orientation sampleEvent stateOABC
       = (stateOABC, [Dispatch Orientation sampleEvent [listenerA, listenerB]], None)"
    by blast
  with binds quiet show ?thesis
    by (simp add: sampleEvent_fresh stateO_maps stateOABC_maps)
qed

subsection \<open>One-shot listeners\<close>

lemma callEach_setAdd:
  assumes "\<forall>a\<in>set ocbs. \<not> stopsPropagation a" "\<not> isCancelled ev"
  shows "fst (callEach (setAdd cb ocbs) ev) = setAdd cb ocbs"
proof (cases "cb \<in> set ocbs \<or> \<not> stopsPropagation cb")
  case True
  with assms have "\<forall>a\<in>set (setAdd cb ocbs). \<not> stopsPropagation a" by (auto simp: setAdd_def)
  with assms(2) show ?thesis by (simp add: callEach_quiet)
next
  case False
  with assms show ?thesis
    using callEach_first_stopper [of ocbs cb ev "[]"] by (simp add: setAdd_def)
qed

lemma count_distinct_member: "distinct xs \<Longrightarrow> x \<in> set xs \<Longrightarrow> count_list xs x = 1"
  by (induction xs) (auto simp: count_list_0_iff)

lemma count_setAdd: "distinct ocbs \<Longrightarrow> count_list (setAdd cb ocbs) cb = 1"
  by (simp add: setAdd_def count_distinct_member count_list_0_iff)

lemma count_absent: "x \<notin> set xs \<Longrightarrow> count_list xs x = 0"
  by (simp add: count_list_0_iff)

lemma pass_reaching_one_shots:
  assumes "\<not> isCancelled ev" and "callbacks s t = Some cbs" and "onceCallbacks s t = Some ocbs"
    and "\<forall>a\<in>set cbs. \<not> stopsPropagation a"
  shows "\<exists>n. triggerCallbacks t ev s =
               (s\<lparr>onceCallbacks := (onceCallbacks s)(t \<mapsto> [])\<rparr>,
                [Dispatch t ev (cbs @ take n ocbs)], None)"
proof -
  obtain n where "fst (callEach ocbs ev) = take n ocbs" using callEach_take by blast
  with assms show ?thesis
    using triggerCallbacks_through [of s t cbs ocbs ev] by auto
qed

lemma pass_stopped_by_persistent:
  assumes "\<not> isCancelled ev" and "callbacks s t = Some cbs" and "\<exists>a\<in>set cbs. stopsPropagation a"
  shows "\<exists>n. triggerCallbacks t ev s = (s, [Dispatch t ev (take n cbs)], None)"
proof -
  from assms(3) obtain pre b post where
    split: "cbs = pre @ b # post" "stopsPropagation b" "\<forall>a\<in>set pre. \<not> stopsPropagation a"
    using split_list_first_prop [of cbs stopsPropagation] by blast
  with assms have "triggerCallbacks t ev s = (s, [Dispatch t ev (take (Suc (length pre)) cbs)], None)"
    using triggerCallbacks_stopped [of s t pre b post ev] by simp
  then show ?thesis by blast
qed

lemma once_then_two_passes:
  assumes "\<not> isCancelled ev" and "callbacks s t = Some cbs" and "onceCallbacks s t = Some ocbs"
    and quiet: "\<forall>a\<in>set cbs. \<not> stopsPropagation a" "\<forall>a\<in>set ocbs. \<not> stopsPropagation a"
    and "distinct ocbs" and "cb \<notin> set cbs" and fresh': "\<not> isCancelled ev'"
    and reg: "once t cb s = Inr s1" and pass: "triggerCallbacks t ev s1 = (s2, out, err)"
  shows "out = [Dispatch t ev (cbs @ setAdd cb ocbs)]
         \<and> count_list (cbs @ setAdd cb ocbs) cb = 1
         \<and> onceCallbacks s2 t = Some []
         \<and> triggerCallbacks t ev' s2 = (s2, [Dispatch t ev' cbs], None)"
proof -
  from reg assms(3) have s1: "s1 = s\<lparr>onceCallbacks := (onceCallbacks s)(t \<mapsto> setAdd cb ocbs)\<rparr>"
    by (simp add: once_present)
  with assms(2) have maps1: "callbacks s1 t = Some cbs" "onceCallbacks s1 t = Some (setAdd cb ocbs)"
    by simp_all
  have "triggerCallbacks t ev s1 =
      (s1\<lparr>onceCallbacks := (onceCallbacks s1)(t \<mapsto> [])\<rparr>,
       [Dispatch t ev (cbs @ setAdd cb ocbs)], None)"
    using triggerCallbacks_through [OF maps1(1) quiet(1) maps1(2) assms(1)] quiet(2) assms(1)
    by (simp add: callEach_setAdd)
  with pass have s2: "s2 = s1\<lparr>onceCallbacks := (onceCallbacks s1)(t \<mapsto> [])\<rparr>"
    and out: "out = [Dispatch t ev (cbs @ setAdd cb ocbs)]" by simp_all
  from s2 maps1 have maps2: "callbacks s2 t = Some cbs" "onceCallbacks s2 t = Some []" by simp_all
  have second: "triggerCallbacks t ev' s2 = (s2, [Dispatch t ev' cbs], None)"
    using triggerCallbacks_through [OF maps2(1) quiet(1) maps2(2) fresh'] by (simp add: s2)
  from assms(6,7) have "count_list (cbs @ setAdd cb ocbs) cb = 1"
    by (simp add: count_setAdd count_absent)
  with out maps2 second show ?thesis by simp
qed

text \<open>
  Claim C3, as amended. A dispatch pass in which no persistent listener sets the
  propagation-stop signal empties the one-shot collection of its type, whether or not every
  one-shot listener ran (a one-shot listener that sets the signal ends the calls, and the
  collection is emptied all the same), and each one-shot listener is invoked at most once,
  in insertion order. A pass that a persistent listener stops leaves the state unchanged:
  the one-shot listeners stay registered. When neither a persistent nor an earlier
  one-shot listener sets the signal, a listener registered by \<open>once\<close> is invoked exactly once
  in the next pass and is absent from the pass after, without being unsubscribed.
\<close>

theorem one_shot_discarded_once_reached:
  assumes "\<not> isCancelled ev" and "callbacks s t = Some cbs" and "onceCallbacks s t = Some ocbs"
  shows "((\<forall>a\<in>set cbs. \<not> stopsPropagation a) \<longrightarrow>
            (\<exists>n. triggerCallbacks t ev s =
               (s\<lparr>onceCallbacks := (onceCallbacks s)(t \<mapsto> [])\<rparr>,
                [Dispatch t ev (cbs @ take n ocbs)], None)))
       \<and> ((\<exists>a\<in>set cbs. stopsPropagation a) \<longrightarrow>
            (\<exists>n. triggerCallbacks t ev s = (s, [Dispatch t ev (take n cbs)], None)))
       \<and> (\<forall>cb ev' s1 s2 out err.
            (\<forall>a\<in>set cbs. \<not> stopsPropagation a) \<and> (\<forall>a\<in>set ocbs. \<not> stopsPropagation a)
            \<and> distinct ocbs \<and> cb \<notin> set cbs \<and> \<not> isCancelled ev'
            \<and> once t cb s = Inr s1 \<and> triggerCallbacks t ev s1 = (s2, out, err)
            \<longrightarrow> out = [Dispatch t ev (cbs @ setAdd cb ocbs)]
                \<and> count_list (cbs @ setAdd cb ocbs) cb = 1
                \<and> onceCallbacks s2 t = Some []
                \<and> triggerCallbacks t ev' s2 = (s2, [Dispatch t ev' cbs], None))"
proof -
  have reached: "(\<forall>a\<in>set cbs. \<not> stopsPropagation a) \<longrightarrow>
            (\<exists>n. triggerCallbacks t ev s =
               (s\<lparr>onceCallbacks := (onceCallbacks s)(t \<mapsto> [])\<rparr>,
                [Dispatch t ev (cbs @ take n ocbs)], None))"
    using pass_reaching_one_shots [OF assms] by blast
  have stopped: "(\<exists>a\<in>set cbs. stopsPropagation a) \<longrightarrow>
            (\<exists>n. triggerCallbacks t ev s = (s, [Dispatch t ev (take n cbs)], None))"
    using pass_stopped_by_persistent [OF assms(1,2)] by blast
  have twice: "\<forall>cb ev' s1 s2 out err.
            (\<forall>a\<in>set cbs. \<not> stopsPropagation a) \<and> (\<forall>a\<in>set ocbs. \<not> stopsPropagation a)
            \<and> distinct ocbs \<and> cb \<notin> set cbs \<and> \<not> isCancelled ev'
            \<and> once t cb s = Inr s1 \<and> triggerCallbacks t ev s1 = (s2, out, err)
            \<longrightarrow> out = [Dispatch t ev (cbs @ setAdd cb ocbs)]
                \<and> count_list (cbs @ setAdd cb ocbs) cb = 1
                \<and> onceCallbacks s2 t = Some []
                \<and> triggerCallbacks t ev' s2 = (s2, [Dispatch t ev' cbs], None)"
  proof (intro allI impI)
    fix cb ev' s1 s2 out err
    assume h: "(\<forall>a\<in>set cbs. \<not> stopsPropagation a) \<and> (\<forall>a\<in>set ocbs. \<not> stopsPropagation a)
            \<and> distinct ocbs \<and> cb \<notin> set cbs \<and> \<not> isCancelled ev'
            \<and> once t cb s = Inr s1 \<and> triggerCallbacks t ev s1 = (s2, out, err)"
    then show "out = [Dispatch t ev (cbs @ setAdd cb ocbs)]
                \<and> count_list (cbs @ setAdd cb ocbs) cb = 1
                \<and> onceCallbacks s2 t = Some []
                \<and> triggerCallbacks t ev' s2 = (s2, [Dispatch t ev' cbs], None)"
      using once_then_two_passes [OF assms, of cb ev' s1 s2 out err] by blast
  qed
  from reached stopped twice show ?thesis by (intro conjI)
qed

text \<open>
  Claim C3 as stated fails: with the persistent listener \<open>B\<close>, which sets the signal, and
  the one-shot listener \<open>O\<close>, a pass invokes \<open>B\<close> only and \<open>O\<close> is still registered after it.
\<close>

theorem one_shot_kept_counterexample:
  "bind Orientation listenerB stateO = Inr stateOB
   \<and> onceCallbacks stateOB Orientation = Some [listenerO]
   \<and> triggerCallbacks Orientation sampleEvent stateOB
       = (stateOB, [Dispatch Orientation sampleEvent [listenerB]], None)"
proof -
  have "triggerCallbacks Orientation sampleEvent stateOB
       = (stateOB, [Dispatch Orientation sampleEvent ([] @ [listenerB])], None)"
    using triggerCallbacks_stopped [of stateOB Orientation "[]" listenerB "[]" sampleEvent]
    by (simp add: stateOB_maps sampleEvent_fresh listenerB_def)
  then show ?thesis by (simp add: stateOB_bind stateOB_maps)
qed

theorem one_shot_discarded_once_reached_witness:
  "\<not> isCancelled sampleEvent
   \<and> callbacks newMotionObserver Orientation = Some []
   \<and> onceCallbacks newMotionObserver Orientation = Some []
   \<and> once Orientation listenerO newMotionObserver = Inr stateO
   \<and> triggerCallbacks Orientation sampleEvent stateO
       = (stateO\<lparr>onceCallbacks := (onceCallbacks stateO)(Orientation \<mapsto> [])\<rparr>,
          [Dispatch Orientation sampleEvent [listenerO]], None)
   \<and> triggerCallbacks Orientation sampleEvent
         (stateO\<lparr>onceCallbacks := (onceCallbacks stateO)(Orientation \<mapsto> [])\<rparr>)
       = (stateO\<lparr>onceCallbacks := (onceCallbacks stateO)(Orientation \<mapsto> [])\<rparr>,
          [Dispatch Orientation sampleEvent []], None)"
proof -
  let ?s2 = "stateO\<lparr>onceCallbacks := (onceCallbacks stateO)(Orientation \<mapsto> [])\<rparr>"
  have first: "triggerCallbacks Orientation sampleEvent stateO
       = (?s2, [Dispatch Orientation sampleEvent [listenerO]], None)"
    using triggerCallbacks_through [OF stateO_maps(1) _ stateO_maps(2) sampleEvent_fresh]
    by (simp add: listenerO_def invoke_def sampleEvent_fresh)
  from one_shot_discarded_once_reached [OF sampleEvent_fresh new_callbacks new_onceCallbacks, of Orientation]
  have "\<forall>cb ev' s1 s2 out err.
            (\<forall>a\<in>set ([]::Listener list). \<not> stopsPropagation a)
            \<and> (\<forall>a\<in>set ([]::Listener list). \<not> stopsPropagation a)
            \<and> distinct ([]::Listener list) \<and> cb \<notin> set [] \<and> \<not> isCancelled ev'
            \<and> once Orientation cb newMotionObserver = Inr s1
            \<and> triggerCallbacks Orientation sampleEvent s1 = (s2, out, err)
            \<longrightarrow> out = [Dispatch Orientation sampleEvent ([] @ setAdd cb [])]
                \<and> count_list ([] @ setAdd cb []) cb = 1
                \<and> onceCallbacks s2 Orientation = Some []
                \<and> triggerCallbacks Orientation ev' s2 = (s2, [Dispatch Orientation ev' []], None)"
    by blast
  from this [rule_format, of listenerO sampleEvent stateO ?s2 "[Dispatch Orientation sampleEvent [listenerO]]" None]
  have "triggerCallbacks Orientation sampleEvent ?s2 = (?s2, [Dispatch Orientation sampleEvent []], None)"
    using first stateO_once sampleEvent_fresh by simp
  with first show ?thesis
    by (simp add: sampleEvent_fresh new_callbacks new_onceCallbacks stateO_once)
qed

subsection \<open>What a dispatch leaves alone\<close>

lemma sameButOnce_refl [simp]: "sameButOnce s s"
  by (simp add: sameButOnce_def)

lemma sameButOnce_update [simp]: "sameButOnce s (s\<lparr>onceCallbacks := oc\<rparr>)"
  by (simp add: sameButOnce_def)

lemma sameButOnce_trans: "sameButOnce a b \<Longrightarrow> sameButOnce b c \<Longrightarrow> sameButOnce a c"
proof -
  assume ab: "sameButOnce a b" and bc: "sameButOnce b c"
  from ab have eq: "b = a\<lparr>onceCallbacks := onceCallbacks b\<rparr>" by (simp add: sameButOnce_def)
  have "b\<lparr>onceCallbacks := onceCallbacks c\<rparr> = a\<lparr>onceCallbacks := onceCallbacks c\<rparr>"
    using arg_cong [OF eq, of "\<lambda>s. s\<lparr>onceCallbacks := onceCallbacks c\<rparr>"] by simp
  with bc show ?thesis by (simp add: sameButOnce_def)
qed

lemma sameButOnce_fields:
  assumes "sameButOnce s s'"
  shows "observed s' = observed s" "hasAbsoluteOrientation s' = hasAbsoluteOrientation s"
    "hasAccelerationWithoutGravity s' = hasAccelerationWithoutGravity s"
    "lastOrientationQuat s' = lastOrientationQuat s" "callbacks s' = callbacks s"
    "windowListeners s' = windowListeners s"
proof -
  from assms have eq: "s' = s\<lparr>onceCallbacks := onceCallbacks s'\<rparr>" by (simp add: sameButOnce_def)
  show "observed s' = observed s" using arg_cong [OF eq, of observed] by simp
  show "hasAbsoluteOrientation s' = hasAbsoluteOrientation s"
    using arg_cong [OF eq, of hasAbsoluteOrientation] by simp
  show "hasAccelerationWithoutGravity s' = hasAccelerationWithoutGravity s"
    using arg_cong [OF eq, of hasAccelerationWithoutGravity] by simp
  show "lastOrientationQuat s' = lastOrientationQuat s"
    using arg_cong [OF eq, of lastOrientationQuat] by simp
  show "callbacks s' = callbacks s" using arg_cong [OF eq, of callbacks] by simp
  show "windowListeners s' = windowListeners s" using arg_cong [OF eq, of windowListeners] by simp
qed

lemma triggerCallbacks_frame: "sameButOnce s (fst (triggerCallbacks t ev s))"
  by (simp add: triggerCallbacks_def split: option.splits prod.splits)

lemma triggerCallbacks_out: "\<exists>tr. fst (snd (triggerCallbacks t ev s)) = [Dispatch t ev tr]"
  by (simp add: triggerCallbacks_def split: option.splits prod.splits)

lemma skip_parts [simp]: "fst (skip s) = s" "fst (snd (skip s)) = []" "snd (snd (skip s)) = None"
  by (simp_all add: skip_def)

lemma andThen_fst:
  "fst (andThen r f) = (case snd (snd r) of Some e \<Rightarrow> fst r | None \<Rightarrow> fst (f (fst r)))"
  by (simp add: andThen_def split: prod.splits option.splits)

lemma andThen_out:
  "fst (snd (andThen r f)) =
     (case snd (snd r) of Some e \<Rightarrow> fst (snd r) | None \<Rightarrow> fst (snd r) @ fst (snd (f (fst r))))"
  by (simp add: andThen_def split: prod.splits option.splits)

lemma andThen_frame:
  assumes "sameButOnce s (fst r)" and "\<And>s1. sameButOnce s1 (fst (f s1))"
  shows "sameButOnce s (fst (andThen r f))"
proof (cases "snd (snd r)")
  case None
  then have "fst (andThen r f) = fst (f (fst r))" by (simp add: andThen_fst)
  with assms show ?thesis using sameButOnce_trans [of s "fst r" "fst (f (fst r))"] by simp
next
  case (Some e)
  then have "fst (andThen r f) = fst r" by (simp add: andThen_fst)
  with assms show ?thesis by simp
qed

lemma andThen_skip [simp]: "andThen r skip = r"
proof (cases r)
  case (fields s out err)
  then show ?thesis by (cases err) (simp_all add: andThen_def skip_def)
qed

lemma andThen_skip_first [simp]: "andThen (skip s) f = f s"
  by (simp add: andThen_def skip_def)

lemma handleMotion_direct:
  assumes "hasAccelerationWithoutGravity s = CBool True"
  shows "handleMotion ios now e s =
      andThen
        (if Acceleration \<in> observed s
         then triggerCallbacks Acceleration (AccelerationEv (accelerationEventFromDevice ios e)) s
         else skip s)
        (\<lambda>s1. if AccelerationInclGravity \<in> observed s1
              then triggerCallbacks AccelerationInclGravity
                     (AccelerationEv (accelerationInclGravityEventFromDevice ios e)) s1
              else skip s1)"
  using assms by (simp add: handleMotion_def)

lemma handleMotion_withheld:
  assumes "hasAccelerationWithoutGravity s = CBool False" and "lastOrientationQuat s = None"
  shows "handleMotion ios now e s =
      (if AccelerationInclGravity \<in> observed s
       then triggerCallbacks AccelerationInclGravity
              (AccelerationEv (accelerationInclGravityEventFromDevice ios e)) s
       else skip s)"
proof -
  have "(\<lambda>s1. skip s1) = skip" by (rule ext) simp
  with assms show ?thesis by (simp add: handleMotion_def Let_def)
qed

lemma handleMotion_derived:
  assumes "hasAccelerationWithoutGravity s = CBool False" and "lastOrientationQuat s = Some q"
    and "Acceleration \<in> observed s"
  shows "handleMotion ios now e s =
      andThen
        (if AccelerationInclGravity \<in> observed s
         then triggerCallbacks AccelerationInclGravity
                (AccelerationEv (accelerationInclGravityEventFromDevice ios e)) s
         else skip s)
        (\<lambda>s1. case lastOrientationQuat s1 of
                 Some q \<Rightarrow>
                   triggerCallbacks Acceleration
                     (AccelerationEv
                        (accelerationEventFromAccInclGravityEventAndOrientationQuat
                           (accelerationInclGravityEventFromDevice ios e) q)) s1
               | None \<Rightarrow> (s1, [], Some TypeError))"
  using assms by (simp add: handleMotion_def Let_def)

lemma handleMotion_not_adjusted:
  assumes "hasAccelerationWithoutGravity s = CBool False" and "Acceleration \<notin> observed s"
  shows "handleMotion ios now e s =
      (if AccelerationInclGravity \<in> observed s
       then triggerCallbacks AccelerationInclGravity
              (AccelerationEv (accelerationInclGravityEventFromDevice ios e)) s
       else skip s)"
proof -
  have "(\<lambda>s1. skip s1) = skip" by (rule ext) simp
  with assms show ?thesis by (simp add: handleMotion_def Let_def)
qed

lemma choice_frame: "sameButOnce s1 (fst (if c then triggerCallbacks t ev s1 else skip s1))"
  by (simp add: triggerCallbacks_frame)

lemma handleMotion_resolved_frame:
  assumes "hasAccelerationWithoutGravity s = CBool b"
  shows "sameButOnce s (fst (handleMotion ios now e s))"
proof (cases b)
  case True
  with assms have flag: "hasAccelerationWithoutGravity s = CBool True" by simp
  show ?thesis
    unfolding handleMotion_direct [OF flag] by (intro andThen_frame choice_frame)
next
  case False
  with assms have flag: "hasAccelerationWithoutGravity s = CBool False" by simp
  show ?thesis
  proof (cases "Acceleration \<in> observed s")
    case no: False
    show ?thesis
      unfolding handleMotion_not_adjusted [OF flag no] by (rule choice_frame)
  next
    case yes: True
    show ?thesis
    proof (cases "lastOrientationQuat s")
      case None
      show ?thesis
        unfolding handleMotion_withheld [OF flag None] by (rule choice_frame)
    next
      case (Some q)
      have "\<And>s1. sameButOnce s1 (fst (case lastOrientationQuat s1 of
                 Some q \<Rightarrow>
                   triggerCallbacks Acceleration
                     (AccelerationEv
                        (accelerationEventFromAccInclGravityEventAndOrientationQuat
                           (accelerationInclGravityEventFromDevice ios e) q)) s1
               | None \<Rightarrow> (s1, [], Some TypeError)))"
        by (simp add: triggerCallbacks_frame split: option.splits)
      then show ?thesis
        unfolding handleMotion_derived [OF flag Some yes] by (intro andThen_frame choice_frame)
    qed
  qed
qed

lemma emitOrientation_frame:
  "sameButOnce (s\<lparr>lastOrientationQuat := Some (quat (detail (orientationEventFromDevice e)))\<rparr>)
     (fst (emitOrientation e s))"
  by (simp add: emitOrientation_def Let_def triggerCallbacks_frame)

section \<open>The capability detector\<close>


subsection \<open>What each handler does to the fields\<close>

lemma emitOrientation_fields:
  "observed (fst (emitOrientation e s)) = observed s"
  "hasAbsoluteOrientation (fst (emitOrientation e s)) = hasAbsoluteOrientation s"
  "hasAccelerationWithoutGravity (fst (emitOrientation e s)) = hasAccelerationWithoutGravity s"
  "lastOrientationQuat (fst (emitOrientation e s)) = Some (quat (detail (orientationEventFromDevice e)))"
  "callbacks (fst (emitOrientation e s)) = callbacks s"
  "windowListeners (fst (emitOrientation e s)) = windowListeners s"
  using sameButOnce_fields [OF emitOrientation_frame [where s = s and e = e]] by simp_all

lemma handleOrientation_fields:
  "observed (fst (handleOrientation now e s)) = observed s"
  "hasAccelerationWithoutGravity (fst (handleOrientation now e s)) = hasAccelerationWithoutGravity s"
  "callbacks (fst (handleOrientation now e s)) = callbacks s"
  "windowListeners (fst (handleOrientation now e s)) = windowListeners s"
  by (simp_all add: handleOrientation_def emitOrientation_fields split: Capability.splits bool.splits)

lemma handleOrientation_flag:
  "hasAbsoluteOrientation (fst (handleOrientation now e s)) =
     (case hasAbsoluteOrientation s of
        CNull \<Rightarrow> CNumber (now + MEASUREMENT_EPSILON)
      | CNumber d \<Rightarrow> if d < now then CBool False else CNumber d
      | CBool b \<Rightarrow> CBool b)"
  by (simp add: handleOrientation_def emitOrientation_fields split: Capability.splits bool.splits)

lemma handleOrientationAbsolute_frame:
  "sameButOnce
     ((if hasAbsoluteOrientation s \<noteq> CBool True
       then s\<lparr>hasAbsoluteOrientation := CBool True,
              windowListeners := windowListeners s - {DeviceOrientation}\<rparr>
       else s)
      \<lparr>lastOrientationQuat :=
         (if Orientation \<in> observed s then Some (quat (detail (orientationEventFromDevice e)))
          else lastOrientationQuat s)\<rparr>)
     (fst (handleOrientationAbsolute e s))"
  by (simp add: handleOrientationAbsolute_def Let_def triggerCallbacks_frame)

lemma handleOrientationAbsolute_fields:
  "observed (fst (handleOrientationAbsolute e s)) = observed s"
  "hasAbsoluteOrientation (fst (handleOrientationAbsolute e s)) = CBool True"
  "hasAccelerationWithoutGravity (fst (handleOrientationAbsolute e s)) = hasAccelerationWithoutGravity s"
  "callbacks (fst (handleOrientationAbsolute e s)) = callbacks s"
  "windowListeners (fst (handleOrientationAbsolute e s)) =
     (if hasAbsoluteOrientation s \<noteq> CBool True then windowListeners s - {DeviceOrientation}
      else windowListeners s)"
  using sameButOnce_fields [OF handleOrientationAbsolute_frame [where s = s and e = e]] by simp_all

lemma handleMotion_unresolved:
  assumes "\<forall>b. hasAccelerationWithoutGravity s \<noteq> CBool b"
  shows "\<exists>c. handleMotion ios now e s = skip (s\<lparr>hasAccelerationWithoutGravity := c\<rparr>)"
proof (cases "hasAccelerationWithoutGravity s")
  case CNull
  then show ?thesis by (auto simp: handleMotion_def)
next
  case (CNumber d)
  have "s = s\<lparr>hasAccelerationWithoutGravity := hasAccelerationWithoutGravity s\<rparr>" by simp
  then have "\<exists>c. skip s = skip (s\<lparr>hasAccelerationWithoutGravity := c\<rparr>)" by metis
  with CNumber show ?thesis by (auto simp: handleMotion_def)
next
  case (CBool b)
  with assms show ?thesis by blast
qed

lemma handleMotion_fields:
  "observed (fst (handleMotion ios now e s)) = observed s"
  "hasAbsoluteOrientation (fst (handleMotion ios now e s)) = hasAbsoluteOrientation s"
  "lastOrientationQuat (fst (handleMotion ios now e s)) = lastOrientationQuat s"
  "callbacks (fst (handleMotion ios now e s)) = callbacks s"
  "windowListeners (fst (handleMotion ios now e s)) = windowListeners s"
proof -
  consider b where "hasAccelerationWithoutGravity s = CBool b"
    | c where "handleMotion ios now e s = skip (s\<lparr>hasAccelerationWithoutGravity := c\<rparr>)"
    using handleMotion_unresolved [of s ios now e] by blast
  then have "observed (fst (handleMotion ios now e s)) = observed s
    \<and> hasAbsoluteOrientation (fst (handleMotion ios now e s)) = hasAbsoluteOrientation s
    \<and> lastOrientationQuat (fst (handleMotion ios now e s)) = lastOrientationQuat s
    \<and> callbacks (fst (handleMotion ios now e s)) = callbacks s
    \<and> windowListeners (fst (handleMotion ios now e s)) = windowListeners s"
  proof cases
    case 1
    from sameButOnce_fields [OF handleMotion_resolved_frame [OF 1, of ios now e]]
    show ?thesis by simp
  next
    case 2
    then show ?thesis by simp
  qed
  then show "observed (fst (handleMotion ios now e s)) = observed s"
    "hasAbsoluteOrientation (fst (handleMotion ios now e s)) = hasAbsoluteOrientation s"
    "lastOrientationQuat (fst (handleMotion ios now e s)) = lastOrientationQuat s"
    "callbacks (fst (handleMotion ios now e s)) = callbacks s"
    "windowListeners (fst (handleMotion ios now e s)) = windowListeners s"
    by simp_all
qed

lemma handleMotion_resolved_flag:
  "hasAccelerationWithoutGravity s = CBool b \<Longrightarrow>
   hasAccelerationWithoutGravity (fst (handleMotion ios now e s)) = CBool b"
  using sameButOnce_fields(3) [OF handleMotion_resolved_frame [of s b ios now e]] by simp

subsection \<open>The capability flags along a session\<close>

lemma method_flags:
  assumes "\<forall>ev now. a \<noteq> Deliver ev now"
  shows "hasAbsoluteOrientation (fst (step ios a s)) = hasAbsoluteOrientation s"
    "hasAccelerationWithoutGravity (fst (step ios a s)) = hasAccelerationWithoutGravity s"
  using assms
  by (cases a; simp add: observeCall_def observeSettle_def unobserve_def disconnect_def
      addListeners_def removeListeners_def bind_def once_def unbind_def Let_def
      split: option.splits sum.splits)+

lemma step_gravity_flag:
  assumes "hasAccelerationWithoutGravity s = CBool b"
  shows "hasAccelerationWithoutGravity (fst (step ios a s)) = CBool b"
proof (cases "\<exists>ev now. a = Deliver ev now")
  case True
  then obtain ev now where "a = Deliver ev now" by blast
  with assms show ?thesis
    by (cases ev)
      (simp_all add: handleOrientation_fields handleOrientationAbsolute_fields handleMotion_resolved_flag)
next
  case False
  with assms show ?thesis using method_flags [of a ios s] by simp
qed

lemma step_absolute_true:
  assumes "hasAbsoluteOrientation s = CBool True"
  shows "hasAbsoluteOrientation (fst (step ios a s)) = CBool True"
proof (cases "\<exists>ev now. a = Deliver ev now")
  case True
  then obtain ev now where "a = Deliver ev now" by blast
  with assms show ?thesis
    by (cases ev)
      (simp_all add: handleOrientation_flag handleOrientationAbsolute_fields handleMotion_fields)
next
  case False
  with assms show ?thesis using method_flags [of a ios s] by simp
qed

lemma step_absolute_false:
  assumes "hasAbsoluteOrientation s = CBool False"
  shows "hasAbsoluteOrientation (fst (step ios a s)) =
           (if \<exists>e now. a = Deliver (OrientationAbsoluteRaw e) now
                 \<and> DeviceOrientationAbsolute \<in> windowListeners s
            then CBool True else CBool False)"
proof (cases "\<exists>ev now. a = Deliver ev now")
  case True
  then obtain ev now where "a = Deliver ev now" by blast
  with assms show ?thesis
    by (cases ev)
      (simp_all add: handleOrientation_flag handleOrientationAbsolute_fields handleMotion_fields)
next
  case False
  with assms show ?thesis using method_flags [of a ios s] by simp
qed

lemma run_fst_Cons: "fst (run ios (a # as) s) = fst (run ios as (fst (step ios a s)))"
  by (simp split: prod.splits)

lemma run_gravity_flag:
  "hasAccelerationWithoutGravity s = CBool b \<Longrightarrow>
   hasAccelerationWithoutGravity (fst (run ios as s)) = CBool b"
proof (induction as arbitrary: s)
  case Nil
  then show ?case by simp
next
  case (Cons a as)
  from Cons.IH [OF step_gravity_flag [OF Cons.prems, of ios a]]
  show ?case by (simp only: run_fst_Cons)
qed

lemma run_absolute_true:
  "hasAbsoluteOrientation s = CBool True \<Longrightarrow> hasAbsoluteOrientation (fst (run ios as s)) = CBool True"
proof (induction as arbitrary: s)
  case Nil
  then show ?case by simp
next
  case (Cons a as)
  from Cons.IH [OF step_absolute_true [OF Cons.prems, of ios a]]
  show ?case by (simp only: run_fst_Cons)
qed

lemma run_absolute_resolved:
  "hasAbsoluteOrientation s = CBool b \<Longrightarrow> \<exists>b'. hasAbsoluteOrientation (fst (run ios as s)) = CBool b'"
proof (induction as arbitrary: s b)
  case Nil
  then show ?case by simp
next
  case (Cons a as)
  have "\<exists>b'. hasAbsoluteOrientation (fst (step ios a s)) = CBool b'"
  proof (cases b)
    case True
    with Cons.prems have "hasAbsoluteOrientation (fst (step ios a s)) = CBool True"
      using step_absolute_true [of s ios a] by simp
    then show ?thesis by blast
  next
    case False
    with Cons.prems have "hasAbsoluteOrientation (fst (step ios a s)) =
           (if \<exists>e now. a = Deliver (OrientationAbsoluteRaw e) now
                 \<and> DeviceOrientationAbsolute \<in> windowListeners s
            then CBool True else CBool False)"
      using step_absolute_false [of s ios a] by simp
    then show ?thesis by (metis (full_types))
  qed
  then obtain b' where "hasAbsoluteOrientation (fst (step ios a s)) = CBool b'" by blast
  from Cons.IH [OF this] show ?case by (simp only: run_fst_Cons)
qed

lemma run_absolute_false:
  "hasAbsoluteOrientation s = CBool False \<Longrightarrow>
   \<forall>e now. Deliver (OrientationAbsoluteRaw e) now \<notin> set as \<Longrightarrow>
   hasAbsoluteOrientation (fst (run ios as s)) = CBool False"
proof (induction as arbitrary: s)
  case Nil
  then show ?case by simp
next
  case (Cons a as)
  from Cons.prems have "hasAbsoluteOrientation (fst (step ios a s)) = CBool False"
    using step_absolute_false [of s ios a] by auto
  from Cons.IH [OF this] Cons.prems(2) show ?case by (simp only: run_fst_Cons) simp
qed

text \<open>
  Claim C2, as amended. Along every session (any list of raw events and method calls):
  the gravity-exclusion flag, once it is true or false, never changes; the
  absolute-orientation flag, once true, never changes; once false, it never goes back to
  unknown, and it stays false as long as no absolute-orientation event is delivered.
\<close>

theorem capability_resolution_stable:
  "(hasAccelerationWithoutGravity s = CBool b \<longrightarrow>
      hasAccelerationWithoutGravity (fst (run ios as s)) = CBool b)
   \<and> (hasAbsoluteOrientation s = CBool True \<longrightarrow>
      hasAbsoluteOrientation (fst (run ios as s)) = CBool True)
   \<and> (hasAbsoluteOrientation s = CBool False \<longrightarrow>
      hasAbsoluteOrientation (fst (run ios as s)) = CBool False
      \<or> hasAbsoluteOrientation (fst (run ios as s)) = CBool True)
   \<and> (hasAbsoluteOrientation s = CBool False
      \<and> (\<forall>e now. Deliver (OrientationAbsoluteRaw e) now \<notin> set as) \<longrightarrow>
      hasAbsoluteOrientation (fst (run ios as s)) = CBool False)"
proof -
  have "hasAbsoluteOrientation s = CBool False \<longrightarrow>
      hasAbsoluteOrientation (fst (run ios as s)) = CBool False
      \<or> hasAbsoluteOrientation (fst (run ios as s)) = CBool True"
    using run_absolute_resolved [of s False ios as] by (metis (full_types))
  then show ?thesis
    by (simp add: run_gravity_flag run_absolute_true run_absolute_false)
qed

lemma run_fst_Nil: "fst (run ios [] s) = s"
  by simp

lemma method_steps:
  "fst (step ios (ObserveCall f) s) = observeCall f s"
  "fst (step ios (ObserveSettle True) s) = addListeners s"
  "fst (step ios (ObserveSettle False) s) = s"
  "fst (step ios (Unobserve f) s) = unobserve f s"
  "fst (step ios Disconnect s) = disconnect s"
  by (simp_all add: observeSettle_def)

lemma deliver_steps:
  "fst (step ios (Deliver (OrientationRaw e) now) s) =
     (if DeviceOrientation \<in> windowListeners s then fst (handleOrientation now e s) else s)"
  "fst (step ios (Deliver (OrientationAbsoluteRaw e) now) s) =
     (if DeviceOrientationAbsolute \<in> windowListeners s then fst (handleOrientationAbsolute e s) else s)"
  "fst (step ios (Deliver (MotionRaw m) now) s) =
     (if DeviceMotion \<in> windowListeners s then fst (handleMotion ios now m s) else s)"
  by simp_all

lemma removeListeners_all: "windowListeners (removeListeners s) = {}"
proof -
  have "\<And>x. x = DeviceMotion \<or> x = DeviceOrientation \<or> x = DeviceOrientationAbsolute"
    by (rule NativeEventType.exhaust) blast+
  then show ?thesis by (auto simp: removeListeners_def)
qed

lemma wiring_fields:
  "hasAbsoluteOrientation (addListeners s) = hasAbsoluteOrientation s"
  "hasAccelerationWithoutGravity (addListeners s) = hasAccelerationWithoutGravity s"
  "observed (addListeners s) = observed s"
  "windowListeners (addListeners s) = \<Union> (nativeEventsFor ` observed s)"
  "hasAbsoluteOrientation (observeCall f s) = hasAbsoluteOrientation s"
  "hasAccelerationWithoutGravity (observeCall f s) = hasAccelerationWithoutGravity s"
  "observed (observeCall f s) = observed s \<union> set (filterArr f)"
  "windowListeners (observeCall f s) = windowListeners s"
  by (simp_all add: addListeners_def removeListeners_all observeCall_def Let_def)
    (simp_all add: removeListeners_def)

lemma new_fields:
  "observed newMotionObserver = {}" "hasAbsoluteOrientation newMotionObserver = CNull"
  "hasAccelerationWithoutGravity newMotionObserver = CNull"
  "lastOrientationQuat newMotionObserver = None" "windowListeners newMotionObserver = {}"
  by (simp_all add: newMotionObserver_def)

lemma handleMotion_flag_unresolved:
  "hasAccelerationWithoutGravity s = CNull \<Longrightarrow>
   hasAccelerationWithoutGravity (fst (handleMotion ios now e s)) =
     (if accelerationNonZero e then CBool True else CNumber (now + MEASUREMENT_EPSILON))"
  "hasAccelerationWithoutGravity s = CNumber d \<Longrightarrow>
   hasAccelerationWithoutGravity (fst (handleMotion ios now e s)) =
     (if accelerationNonZero e then CBool True else if d < now then CBool False else CNumber d)"
  by (simp_all add: handleMotion_def)

lemmas session_eval =
  run_fst_Cons run_fst_Nil method_steps deliver_steps wiring_fields new_fields
  handleOrientation_fields handleOrientation_flag handleOrientationAbsolute_fields
  handleMotion_fields handleMotion_flag_unresolved handleMotion_resolved_flag
  filterArr_def orElse_def allMotionTypes_def MEASUREMENT_EPSILON_def

text \<open>
  Claim C2 as stated fails: after the grace window has resolved the absolute-orientation
  flag to false, a late absolute-orientation event sets it to true.
\<close>

theorem late_absolute_event_counterexample:
  "hasAbsoluteOrientation (fst (run False timeoutSession newMotionObserver)) = CBool False
   \<and> hasAbsoluteOrientation (fst (run False lateAbsoluteSession newMotionObserver)) = CBool True"
  by (simp add: lateAbsoluteSession_def timeoutSession_def session_eval del: run.simps step.simps)

lemma settledState_flags:
  "hasAbsoluteOrientation settledState = CBool False"
  "hasAccelerationWithoutGravity settledState = CBool False"
  by (simp_all add: settledState_def settledSession_def session_eval rawStill_def
      accelerationNonZero_def axisX_def axisY_def axisZ_def del: run.simps step.simps)

lemma supersededState_flag: "hasAbsoluteOrientation supersededState = CBool True"
  by (simp add: supersededState_def lateAbsoluteSession_def timeoutSession_def session_eval
      del: run.simps step.simps)

theorem capability_resolution_stable_witness:
  "hasAccelerationWithoutGravity settledState = CBool False
   \<and> hasAbsoluteOrientation settledState = CBool False
   \<and> hasAbsoluteOrientation supersededState = CBool True
   \<and> hasAccelerationWithoutGravity
       (fst (run False [Deliver (MotionRaw rawStill) 60, Deliver (OrientationRaw rawLevel) 70] settledState))
       = CBool False
   \<and> hasAbsoluteOrientation
       (fst (run False [Deliver (MotionRaw rawStill) 60, Deliver (OrientationRaw rawLevel) 70] settledState))
       = CBool False
   \<and> hasAbsoluteOrientation
       (fst (run False [Deliver (MotionRaw rawStill) 60, Deliver (OrientationRaw rawLevel) 70] supersededState))
       = CBool True"
  using capability_resolution_stable
          [of settledState False False "[Deliver (MotionRaw rawStill) 60, Deliver (OrientationRaw rawLevel) 70]"]
        capability_resolution_stable
          [of supersededState False False "[Deliver (MotionRaw rawStill) 60, Deliver (OrientationRaw rawLevel) 70]"]
  by (simp add: settledState_flags supersededState_flag del: run.simps)

subsection \<open>Relative events in and after the grace window\<close>

lemma run_append:
  "run ios (as @ bs) s =
     (case run ios as s of (s1, o1) \<Rightarrow> (case run ios bs s1 of (s2, o2) \<Rightarrow> (s2, o1 @ o2)))"
  by (induction as arbitrary: s) (simp_all split: prod.splits)

lemma run_append_fst: "fst (run ios (as @ bs) s) = fst (run ios bs (fst (run ios as s)))"
  by (simp add: run_append split: prod.splits)

lemma run_append_snd:
  "snd (run ios (as @ bs) s) = snd (run ios as s) @ snd (run ios bs (fst (run ios as s)))"
  by (simp add: run_append split: prod.splits)

lemma run_Cons_snd:
  "snd (run ios (a # as) s) = fst (snd (step ios a s)) @ snd (run ios as (fst (step ios a s)))"
  by (simp split: prod.splits)

lemma relativeEvents_Cons [simp]:
  "relativeEvents ((t, e) # rels) = Deliver (OrientationRaw e) t # relativeEvents rels"
  by (simp add: relativeEvents_def)

lemma relativeEvents_Nil [simp]: "relativeEvents [] = []"
  by (simp add: relativeEvents_def)

lemma relativeEvents_append [simp]:
  "relativeEvents (xs @ ys) = relativeEvents xs @ relativeEvents ys"
  by (simp add: relativeEvents_def)

lemma relative_waiting:
  assumes "hasAbsoluteOrientation s = CNumber d" and "now \<le> d"
  shows "step ios (Deliver (OrientationRaw e) now) s = (s, [], None)"
  using assms by (simp add: handleOrientation_def skip_def)

lemma relative_superseded:
  assumes "hasAbsoluteOrientation s = CBool True"
  shows "step ios (Deliver (OrientationRaw e) now) s = (s, [], None)"
  using assms by (simp add: handleOrientation_def skip_def)

lemma relative_first:
  assumes "hasAbsoluteOrientation s = CNull"
  shows "step ios (Deliver (OrientationRaw e) now) s =
           (if DeviceOrientation \<in> windowListeners s
            then s\<lparr>hasAbsoluteOrientation := CNumber (now + MEASUREMENT_EPSILON)\<rparr> else s, [], None)"
  using assms by (simp add: handleOrientation_def skip_def)

lemma waiting_run:
  assumes "hasAbsoluteOrientation s = CNumber d" and "\<forall>t\<in>set (map fst rels). t \<le> d"
  shows "run ios (relativeEvents rels) s = (s, [])"
  using assms
proof (induction rels)
  case Nil
  then show ?case by simp
next
  case (Cons r rels)
  obtain t e where r: "r = (t, e)" by (cases r)
  with Cons.prems have "step ios (Deliver (OrientationRaw e) t) s = (s, [], None)"
    by (simp add: relative_waiting del: step.simps)
  with Cons r show ?case by (simp del: step.simps)
qed

lemma unwired_run:
  assumes "DeviceOrientation \<notin> windowListeners s"
  shows "run ios (relativeEvents rels) s = (s, [])"
  using assms
proof (induction rels)
  case Nil
  then show ?case by simp
next
  case (Cons r rels)
  obtain t e where r: "r = (t, e)" by (cases r)
  with Cons.prems have "step ios (Deliver (OrientationRaw e) t) s = (s, [], None)"
    by (simp add: skip_def)
  with Cons r show ?case by (simp del: step.simps)
qed

lemma window_run:
  assumes "hasAbsoluteOrientation s = CNull"
    and "\<forall>t\<in>set (map fst rels). t \<le> fst (hd rels) + MEASUREMENT_EPSILON"
  shows "run ios (relativeEvents rels) s =
           (if DeviceOrientation \<in> windowListeners s \<and> rels \<noteq> []
            then s\<lparr>hasAbsoluteOrientation := CNumber (fst (hd rels) + MEASUREMENT_EPSILON)\<rparr>
            else s, [])"
proof (cases rels)
  case Nil
  then show ?thesis by simp
next
  case (Cons r rest)
  obtain t e where r: "r = (t, e)" by (cases r)
  show ?thesis
  proof (cases "DeviceOrientation \<in> windowListeners s")
    case False
    then show ?thesis by (simp add: unwired_run)
  next
    case True
    let ?s1 = "s\<lparr>hasAbsoluteOrientation := CNumber (t + MEASUREMENT_EPSILON)\<rparr>"
    from assms(2) Cons r have "\<forall>u\<in>set (map fst rest). u \<le> t + MEASUREMENT_EPSILON" by simp
    then have "run ios (relativeEvents rest) ?s1 = (?s1, [])"
      using waiting_run [of ?s1 "t + MEASUREMENT_EPSILON" rest ios] by simp
    with True assms(1) Cons r show ?thesis by (simp add: relative_first del: step.simps)
  qed
qed

lemma absolute_step:
  assumes "DeviceOrientationAbsolute \<in> windowListeners s"
  shows "hasAbsoluteOrientation (fst (step ios (Deliver (OrientationAbsoluteRaw e) now) s)) = CBool True"
    "hasAbsoluteOrientation s \<noteq> CBool True \<Longrightarrow>
     DeviceOrientation \<notin> windowListeners (fst (step ios (Deliver (OrientationAbsoluteRaw e) now) s))"
  using assms by (simp_all add: handleOrientationAbsolute_fields)

text \<open>
  Claim C5. In a session that starts with the absolute-orientation capability unknown, let
  relative-orientation events arrive, none later than the end of the grace window that the
  first of them opens, and then one absolute-orientation event. The relative events
  dispatch nothing and leave the capability unresolved; the absolute event resolves it to
  true at once and removes the relative-orientation listener from the window; whatever the
  session does afterwards, the capability stays true and a relative-orientation event
  dispatches nothing.
\<close>

theorem absolute_event_in_grace_window:
  assumes "hasAbsoluteOrientation s = CNull"
    and "\<forall>t\<in>set (map fst rels). t \<le> fst (hd rels) + MEASUREMENT_EPSILON"
    and "DeviceOrientationAbsolute \<in> windowListeners s"
  shows "snd (run ios (relativeEvents rels) s) = []
     \<and> (\<forall>b. hasAbsoluteOrientation (fst (run ios (relativeEvents rels) s)) \<noteq> CBool b)
     \<and> hasAbsoluteOrientation
         (fst (run ios (relativeEvents rels @ [Deliver (OrientationAbsoluteRaw ea) ta]) s)) = CBool True
     \<and> DeviceOrientation \<notin> windowListeners
         (fst (run ios (relativeEvents rels @ [Deliver (OrientationAbsoluteRaw ea) ta]) s))
     \<and> (\<forall>as. hasAbsoluteOrientation
           (fst (run ios (relativeEvents rels @ Deliver (OrientationAbsoluteRaw ea) ta # as) s)) = CBool True)
     \<and> (\<forall>as e t.
           step ios (Deliver (OrientationRaw e) t)
             (fst (run ios (relativeEvents rels @ Deliver (OrientationAbsoluteRaw ea) ta # as) s))
           = (fst (run ios (relativeEvents rels @ Deliver (OrientationAbsoluteRaw ea) ta # as) s), [], None))"
proof -
  let ?s1 = "fst (run ios (relativeEvents rels) s)"
  let ?s2 = "fst (step ios (Deliver (OrientationAbsoluteRaw ea) ta) ?s1)"
  note win = window_run [OF assms(1,2), of ios]
  have quiet: "snd (run ios (relativeEvents rels) s) = []" by (simp add: win)
  have unresolved: "\<forall>b. hasAbsoluteOrientation ?s1 \<noteq> CBool b"
    using assms(1) by (simp add: win)
  have wired: "DeviceOrientationAbsolute \<in> windowListeners ?s1"
    using assms(3) by (simp add: win)
  have true2: "hasAbsoluteOrientation ?s2 = CBool True"
    by (rule absolute_step(1) [OF wired])
  have torn: "DeviceOrientation \<notin> windowListeners ?s2"
    using unresolved by (intro absolute_step(2) [OF wired]) simp
  have after: "\<And>as. fst (run ios (relativeEvents rels @ Deliver (OrientationAbsoluteRaw ea) ta # as) s)
      = fst (run ios as ?s2)"
    by (simp only: run_append_fst run_fst_Cons)
  have stays: "\<And>as. hasAbsoluteOrientation (fst (run ios as ?s2)) = CBool True"
    by (rule run_absolute_true [OF true2])
  have silent: "\<And>as e t. step ios (Deliver (OrientationRaw e) t) (fst (run ios as ?s2))
      = (fst (run ios as ?s2), [], None)"
    by (rule relative_superseded [OF stays])
  show ?thesis
    unfolding after run_fst_Nil
    by (intro conjI allI silent)
      (simp_all only: quiet unresolved [rule_format] true2 torn stays not_False_eq_True)
qed

theorem absolute_event_in_grace_window_witness:
  "hasAbsoluteOrientation observingState = CNull
   \<and> DeviceOrientationAbsolute \<in> windowListeners observingState
   \<and> (0::int) \<le> 0 + MEASUREMENT_EPSILON \<and> (5::int) \<le> 0 + MEASUREMENT_EPSILON
   \<and> snd (run False (relativeEvents [(0, rawLevel), (5, rawLevel)]) observingState) = []
   \<and> hasAbsoluteOrientation
       (fst (run False (relativeEvents [(0, rawLevel), (5, rawLevel)]
                          @ [Deliver (OrientationAbsoluteRaw rawLevelAbsolute) 10]) observingState))
       = CBool True
   \<and> DeviceOrientation \<notin> windowListeners
       (fst (run False (relativeEvents [(0, rawLevel), (5, rawLevel)]
                          @ [Deliver (OrientationAbsoluteRaw rawLevelAbsolute) 10]) observingState))"
proof -
  have start: "hasAbsoluteOrientation observingState = CNull"
    "DeviceOrientationAbsolute \<in> windowListeners observingState"
    by (simp_all add: observingState_def session_eval del: run.simps step.simps)
  have window: "\<forall>t\<in>set (map fst [(0, rawLevel), (5, rawLevel)]).
      t \<le> fst (hd [(0::int, rawLevel), (5, rawLevel)]) + MEASUREMENT_EPSILON"
    by (simp add: MEASUREMENT_EPSILON_def)
  from absolute_event_in_grace_window [OF start(1) window start(2), of False rawLevelAbsolute 10]
  show ?thesis using start by (simp add: MEASUREMENT_EPSILON_def del: run.simps step.simps)
qed

lemma triggerCallbacks_intact:
  assumes "callbacks s t = Some cbs" and "onceCallbacks s t = Some ocbs"
  shows "\<exists>s' tr. triggerCallbacks t ev s = (s', [Dispatch t ev tr], None)
           \<and> sameButOnce s s' \<and> onceCallbacks s' t \<noteq> None
           \<and> ((\<forall>a\<in>set cbs. \<not> stopsPropagation a) \<and> \<not> isCancelled ev \<longrightarrow> take (length cbs) tr = cbs)"
proof (cases "(\<forall>a\<in>set cbs. \<not> stopsPropagation a) \<and> \<not> isCancelled ev")
  case True
  with assms show ?thesis
    using triggerCallbacks_through [of s t cbs ocbs ev] by simp
next
  case False
  obtain tr1 ev1 stopped where c1: "callEach cbs ev = (tr1, ev1, stopped)" by (cases "callEach cbs ev")
  obtain tr2 ev2 stopped2 where c2: "callEach ocbs ev1 = (tr2, ev2, stopped2)"
    by (cases "callEach ocbs ev1")
  from assms c1 c2 have "triggerCallbacks t ev s =
      (if stopped then (s, [Dispatch t ev tr1], None)
       else (s\<lparr>onceCallbacks := (onceCallbacks s)(t \<mapsto> [])\<rparr>, [Dispatch t ev (tr1 @ tr2)], None))"
    by (simp add: triggerCallbacks_def)
  with False assms show ?thesis by (cases stopped) auto
qed

lemma fresh_orientation_event: "\<not> isCancelled (OrientationEv (orientationEventFromDevice e))"
  by (simp add: orientationEventFromDevice_def createEvent_def Let_def)

lemma emitOrientation_live:
  assumes "Orientation \<in> observed s" and "callbacks s Orientation = Some cbs"
    and "onceCallbacks s Orientation = Some ocbs"
  shows "\<exists>s' tr. emitOrientation e s =
             (s', [Dispatch Orientation (OrientationEv (orientationEventFromDevice e)) tr], None)
           \<and> hasAbsoluteOrientation s' = hasAbsoluteOrientation s
           \<and> windowListeners s' = windowListeners s \<and> observed s' = observed s
           \<and> callbacks s' = callbacks s \<and> onceCallbacks s' Orientation \<noteq> None
           \<and> ((\<forall>a\<in>set cbs. \<not> stopsPropagation a) \<longrightarrow> take (length cbs) tr = cbs)"
proof -
  let ?ev = "OrientationEv (orientationEventFromDevice e)"
  let ?s1 = "s\<lparr>lastOrientationQuat := Some (quat (detail (orientationEventFromDevice e)))\<rparr>"
  from assms have maps: "callbacks ?s1 Orientation = Some cbs" "onceCallbacks ?s1 Orientation = Some ocbs"
    by simp_all
  from triggerCallbacks_intact [OF maps, of ?ev] obtain s' tr where
    tc: "triggerCallbacks Orientation ?ev ?s1 = (s', [Dispatch Orientation ?ev tr], None)"
    and frame: "sameButOnce ?s1 s'" and present: "onceCallbacks s' Orientation \<noteq> None"
    and all: "(\<forall>a\<in>set cbs. \<not> stopsPropagation a) \<longrightarrow> take (length cbs) tr = cbs"
    using fresh_orientation_event by blast
  from assms(1) tc have "emitOrientation e s = (s', [Dispatch Orientation ?ev tr], None)"
    by (simp add: emitOrientation_def Let_def)
  with sameButOnce_fields [OF frame] present all show ?thesis by simp
qed

lemma live_step:
  assumes "relativeLive cbs s"
  shows "\<exists>s' tr. step ios (Deliver (OrientationRaw e) t) s =
             (s', [Dispatch Orientation (OrientationEv (orientationEventFromDevice e)) tr], None)
           \<and> relativeLive cbs s'
           \<and> ((\<forall>a\<in>set cbs. \<not> stopsPropagation a) \<longrightarrow> take (length cbs) tr = cbs)"
proof -
  from assms obtain ocbs where maps: "Orientation \<in> observed s" "callbacks s Orientation = Some cbs"
    "onceCallbacks s Orientation = Some ocbs"
    by (auto simp: relativeLive_def)
  from assms have "step ios (Deliver (OrientationRaw e) t) s = emitOrientation e s"
    by (simp add: relativeLive_def handleOrientation_def)
  with emitOrientation_live [OF maps, of e] assms show ?thesis
    by (auto simp: relativeLive_def)
qed

lemma timeout_step:
  assumes "hasAbsoluteOrientation s = CNumber d" and "d < t"
    and "DeviceOrientation \<in> windowListeners s" and "Orientation \<in> observed s"
    and "callbacks s Orientation = Some cbs" and "onceCallbacks s Orientation = Some ocbs"
  shows "\<exists>s' tr. step ios (Deliver (OrientationRaw e) t) s =
             (s', [Dispatch Orientation (OrientationEv (orientationEventFromDevice e)) tr], None)
           \<and> relativeLive cbs s'
           \<and> ((\<forall>a\<in>set cbs. \<not> stopsPropagation a) \<longrightarrow> take (length cbs) tr = cbs)"
proof -
  let ?s0 = "s\<lparr>hasAbsoluteOrientation := CBool False\<rparr>"
  from assms have maps: "Orientation \<in> observed ?s0" "callbacks ?s0 Orientation = Some cbs"
    "onceCallbacks ?s0 Orientation = Some ocbs"
    by simp_all
  from assms have "step ios (Deliver (OrientationRaw e) t) s = emitOrientation e ?s0"
    by (simp add: handleOrientation_def)
  with emitOrientation_live [OF maps, of e] assms show ?thesis
    by (auto simp: relativeLive_def)
qed

lemma live_run:
  assumes "relativeLive cbs s"
  shows "relativeLive cbs (fst (run ios (relativeEvents later) s))
       \<and> map (\<lambda>d. (dispatchType d, dispatchEvent d)) (snd (run ios (relativeEvents later) s))
           = map (\<lambda>(t, e). (Orientation, OrientationEv (orientationEventFromDevice e))) later
       \<and> ((\<forall>a\<in>set cbs. \<not> stopsPropagation a) \<longrightarrow>
            (\<forall>d\<in>set (snd (run ios (relativeEvents later) s)). take (length cbs) (invoked d) = cbs))"
  using assms
proof (induction later arbitrary: s)
  case Nil
  then show ?case by simp
next
  case (Cons r later)
  obtain t e where r: "r = (t, e)" by (cases r)
  from live_step [OF Cons.prems, of ios e t] obtain s' tr where
    st: "step ios (Deliver (OrientationRaw e) t) s =
           (s', [Dispatch Orientation (OrientationEv (orientationEventFromDevice e)) tr], None)"
    and live: "relativeLive cbs s'"
    and all: "(\<forall>a\<in>set cbs. \<not> stopsPropagation a) \<longrightarrow> take (length cbs) tr = cbs"
    by blast
  from Cons.IH [OF live] st all r show ?case
    by (simp add: run_fst_Cons run_Cons_snd del: run.simps step.simps)
qed


text \<open>
  Claim C6. In a session that starts with the absolute-orientation capability unknown, with
  the relative-orientation listener on the window, \<open>Orientation\<close> observed and the listener
  collections in place, let only relative-orientation events arrive: a first one at \<open>t0\<close>,
  more before the grace window has elapsed, one at \<open>t1\<close> after the deadline, and any others
  later. The events in the window dispatch nothing and leave the capability unresolved. The
  event at \<open>t1\<close> resolves it to false, where it stays, and that event and every later one is
  dispatched as an orientation event, in order, to the \<open>Orientation\<close> listeners: every
  persistent listener is invoked each time when none of them sets propagation-stop.
\<close>

theorem relative_events_after_timeout:
  assumes "hasAbsoluteOrientation s = CNull" and "DeviceOrientation \<in> windowListeners s"
    and "Orientation \<in> observed s"
    and "callbacks s Orientation = Some cbs" and "onceCallbacks s Orientation = Some ocbs"
    and "\<forall>t\<in>set (map fst early). t \<le> t0 + MEASUREMENT_EPSILON"
    and "t0 + MEASUREMENT_EPSILON < t1"
  shows "snd (run ios (relativeEvents ((t0, e0) # early)) s) = []
     \<and> (\<forall>b. hasAbsoluteOrientation (fst (run ios (relativeEvents ((t0, e0) # early)) s)) \<noteq> CBool b)
     \<and> hasAbsoluteOrientation
         (fst (run ios (relativeEvents ((t0, e0) # early @ (t1, e1) # later)) s)) = CBool False
     \<and> map (\<lambda>d. (dispatchType d, dispatchEvent d))
           (snd (run ios (relativeEvents ((t0, e0) # early @ (t1, e1) # later)) s))
         = map (\<lambda>(t, e). (Orientation, OrientationEv (orientationEventFromDevice e))) ((t1, e1) # later)
     \<and> ((\<forall>a\<in>set cbs. \<not> stopsPropagation a) \<longrightarrow>
          (\<forall>d\<in>set (snd (run ios (relativeEvents ((t0, e0) # early @ (t1, e1) # later)) s)).
             take (length cbs) (invoked d) = cbs))"
proof -
  let ?s1 = "s\<lparr>hasAbsoluteOrientation := CNumber (t0 + MEASUREMENT_EPSILON)\<rparr>"
  let ?window = "relativeEvents ((t0, e0) # early)"
  let ?all = "relativeEvents ((t0, e0) # early @ (t1, e1) # later)"
  from assms(6) have "\<forall>t\<in>set (map fst ((t0, e0) # early)).
      t \<le> fst (hd ((t0, e0) # early)) + MEASUREMENT_EPSILON"
    by (simp add: MEASUREMENT_EPSILON_def)
  from window_run [OF assms(1) this, of ios] assms(2)
  have win0: "run ios ?window s = (?s1, [])" by simp
  define w where "w = ?window"
  have win: "run ios w s = (?s1, [])" by (simp only: w_def win0)
  from assms have "\<exists>s' tr. step ios (Deliver (OrientationRaw e1) t1) ?s1 =
             (s', [Dispatch Orientation (OrientationEv (orientationEventFromDevice e1)) tr], None)
           \<and> relativeLive cbs s'
           \<and> ((\<forall>a\<in>set cbs. \<not> stopsPropagation a) \<longrightarrow> take (length cbs) tr = cbs)"
    by (intro timeout_step [where d = "t0 + MEASUREMENT_EPSILON" and ocbs = ocbs]) simp_all
  then obtain s2 tr where
    late: "step ios (Deliver (OrientationRaw e1) t1) ?s1 =
             (s2, [Dispatch Orientation (OrientationEv (orientationEventFromDevice e1)) tr], None)"
    and live: "relativeLive cbs s2"
    and all: "(\<forall>a\<in>set cbs. \<not> stopsPropagation a) \<longrightarrow> take (length cbs) tr = cbs"
    by blast
  note rest = live_run [OF live, of ios later]
  have split: "?all = w @ Deliver (OrientationRaw e1) t1 # relativeEvents later"
    by (simp add: w_def)
  have state: "fst (run ios ?all s) = fst (run ios (relativeEvents later) s2)"
    unfolding split by (simp add: run_append_fst run_fst_Cons win late del: run.simps step.simps)
  have out: "snd (run ios ?all s) =
      Dispatch Orientation (OrientationEv (orientationEventFromDevice e1)) tr
        # snd (run ios (relativeEvents later) s2)"
    unfolding split by (simp add: run_append_snd run_Cons_snd win late del: run.simps step.simps)
  have a: "snd (run ios ?window s) = []" by (simp only: win0 snd_conv)
  have b: "\<forall>b. hasAbsoluteOrientation (fst (run ios ?window s)) \<noteq> CBool b"
    by (simp only: win0 fst_conv) simp
  have c: "hasAbsoluteOrientation (fst (run ios ?all s)) = CBool False"
    unfolding state using rest by (simp add: relativeLive_def)
  have d: "map (\<lambda>d. (dispatchType d, dispatchEvent d)) (snd (run ios ?all s))
         = map (\<lambda>(t, e). (Orientation, OrientationEv (orientationEventFromDevice e))) ((t1, e1) # later)"
    unfolding out using rest by simp
  have e: "(\<forall>a\<in>set cbs. \<not> stopsPropagation a) \<longrightarrow>
          (\<forall>d\<in>set (snd (run ios ?all s)). take (length cbs) (invoked d) = cbs)"
    unfolding out using rest all by simp
  from a b c d e show ?thesis by (intro conjI)
qed

lemma wiring_maps:
  "callbacks (addListeners s) = callbacks s" "onceCallbacks (addListeners s) = onceCallbacks s"
  "callbacks (observeCall f s) = callbacks s" "onceCallbacks (observeCall f s) = onceCallbacks s"
  "lastOrientationQuat (addListeners s) = lastOrientationQuat s"
  "lastOrientationQuat (observeCall f s) = lastOrientationQuat s"
  by (simp_all add: addListeners_def removeListeners_def observeCall_def Let_def)

lemma observingState_fields:
  "hasAbsoluteOrientation observingState = CNull"
  "windowListeners observingState = {DeviceOrientation, DeviceOrientationAbsolute}"
  "observed observingState = {Orientation}"
  "callbacks observingState Orientation = Some []"
  "onceCallbacks observingState Orientation = Some []"
  by (simp_all add: observingState_def session_eval wiring_maps new_callbacks new_onceCallbacks
      del: run.simps step.simps)

lemma listeningState_fields:
  "hasAbsoluteOrientation listeningState = CNull"
  "DeviceOrientation \<in> windowListeners listeningState"
  "Orientation \<in> observed listeningState"
  "callbacks listeningState Orientation = Some [listenerA]"
  "onceCallbacks listeningState Orientation = Some []"
  by (simp_all add: listeningState_def bind_present [OF observingState_fields(4)]
      observingState_fields setAdd_def)

theorem relative_events_after_timeout_witness:
  "hasAbsoluteOrientation listeningState = CNull
   \<and> DeviceOrientation \<in> windowListeners listeningState
   \<and> Orientation \<in> observed listeningState
   \<and> callbacks listeningState Orientation = Some [listenerA]
   \<and> onceCallbacks listeningState Orientation = Some []
   \<and> (5::int) \<le> 0 + MEASUREMENT_EPSILON \<and> 0 + MEASUREMENT_EPSILON < (21::int)
   \<and> hasAbsoluteOrientation
       (fst (run False (relativeEvents [(0, rawLevel), (5, rawLevel), (21, rawLevel), (40, rawLevel)])
              listeningState)) = CBool False
   \<and> map (\<lambda>d. (dispatchType d, dispatchEvent d))
         (snd (run False (relativeEvents [(0, rawLevel), (5, rawLevel), (21, rawLevel), (40, rawLevel)])
                listeningState))
       = [(Orientation, OrientationEv (orientationEventFromDevice rawLevel)),
          (Orientation, OrientationEv (orientationEventFromDevice rawLevel))]"
proof -
  have early: "\<forall>t\<in>set (map fst [(5::int, rawLevel)]). t \<le> 0 + MEASUREMENT_EPSILON"
    and late: "0 + MEASUREMENT_EPSILON < (21::int)"
    by (simp_all add: MEASUREMENT_EPSILON_def)
  from relative_events_after_timeout [OF listeningState_fields early late,
      of False rawLevel rawLevel "[(40, rawLevel)]"]
  show ?thesis
    using listeningState_fields early late by (simp del: run.simps step.simps relativeEvents_Cons)
qed

section \<open>Derived acceleration\<close>

lemma method_out:
  assumes "\<forall>ev now. a \<noteq> Deliver ev now"
  shows "fst (snd (step ios a s)) = []"
  using assms
  by (cases a; simp add: skip_def split: option.splits sum.splits prod.splits)

lemma method_lastOrientationQuat:
  assumes "\<forall>ev now. a \<noteq> Deliver ev now" and "lastOrientationQuat s = None"
  shows "lastOrientationQuat (fst (step ios a s)) = None"
  using assms
  by (cases a; simp add: observeCall_def observeSettle_def unobserve_def disconnect_def
      addListeners_def removeListeners_def bind_def once_def unbind_def Let_def
      split: option.splits sum.splits)

lemma withheld_out:
  assumes "hasAccelerationWithoutGravity s = CBool False" and "lastOrientationQuat s = None"
  shows "\<forall>d\<in>set (fst (snd (handleMotion ios now e s))). dispatchType d \<noteq> Acceleration"
proof (cases "AccelerationInclGravity \<in> observed s")
  case True
  obtain tr where "fst (snd (triggerCallbacks AccelerationInclGravity
      (AccelerationEv (accelerationInclGravityEventFromDevice ios e)) s))
      = [Dispatch AccelerationInclGravity (AccelerationEv (accelerationInclGravityEventFromDevice ios e)) tr]"
    using triggerCallbacks_out by blast
  with True show ?thesis by (simp add: handleMotion_withheld [OF assms])
next
  case False
  then show ?thesis by (simp add: handleMotion_withheld [OF assms])
qed

lemma withheld_step:
  assumes "hasAccelerationWithoutGravity s = CBool False" and "lastOrientationQuat s = None"
    and "\<not> isOrientationDelivery a"
  shows "hasAccelerationWithoutGravity (fst (step ios a s)) = CBool False
       \<and> lastOrientationQuat (fst (step ios a s)) = None
       \<and> (\<forall>d\<in>set (fst (snd (step ios a s))). dispatchType d \<noteq> Acceleration)"
proof (cases "\<exists>ev now. a = Deliver ev now")
  case False
  with assms show ?thesis
    using method_out [of a ios s] method_lastOrientationQuat [of a s ios] step_gravity_flag [of s False ios a]
    by simp
next
  case True
  with assms(3) obtain m now where a: "a = Deliver (MotionRaw m) now"
    by (metis NativeEvent.exhaust isOrientationDelivery.simps(1,2))
  show ?thesis
  proof (cases "DeviceMotion \<in> windowListeners s")
    case True
    with a assms withheld_out [OF assms(1,2), of ios now m] show ?thesis
      by (simp add: handleMotion_fields handleMotion_resolved_flag)
  next
    case False
    with a assms show ?thesis by simp
  qed
qed

lemma withheld_run:
  assumes "hasAccelerationWithoutGravity s = CBool False" and "lastOrientationQuat s = None"
    and "\<forall>a\<in>set as. \<not> isOrientationDelivery a"
  shows "lastOrientationQuat (fst (run ios as s)) = None
       \<and> (\<forall>d\<in>set (snd (run ios as s)). dispatchType d \<noteq> Acceleration)"
  using assms
proof (induction as arbitrary: s)
  case Nil
  then show ?case by simp
next
  case (Cons a as)
  from Cons.prems have "\<not> isOrientationDelivery a" by simp
  note st = withheld_step [OF Cons.prems(1,2) this, of ios]
  from Cons.prems(3) have "\<forall>a\<in>set as. \<not> isOrientationDelivery a" by simp
  from Cons.IH [OF _ _ this, of "fst (step ios a s)"] st show ?case
    by (auto simp: run_fst_Cons run_Cons_snd simp del: run.simps step.simps)
qed

lemma derived_resumes:
  assumes "hasAccelerationWithoutGravity s = CBool False" and "lastOrientationQuat s = Some q"
    and "Acceleration \<in> observed s"
    and "callbacks s Acceleration = Some cbs" and "onceCallbacks s Acceleration = Some ocbs"
    and "callbacks s AccelerationInclGravity = Some cbs'"
    and "onceCallbacks s AccelerationInclGravity = Some ocbs'"
  shows "\<exists>tr. Dispatch Acceleration
          (AccelerationEv (accelerationEventFromAccInclGravityEventAndOrientationQuat
             (accelerationInclGravityEventFromDevice ios e) q)) tr
        \<in> set (fst (snd (handleMotion ios now e s)))"
proof -
  let ?incl = "AccelerationEv (accelerationInclGravityEventFromDevice ios e)"
  let ?derived = "AccelerationEv (accelerationEventFromAccInclGravityEventAndOrientationQuat
             (accelerationInclGravityEventFromDevice ios e) q)"
  let ?first = "if AccelerationInclGravity \<in> observed s
         then triggerCallbacks AccelerationInclGravity ?incl s else skip s"
  obtain s1 out1 where first: "?first = (s1, out1, None)" and frame: "sameButOnce s s1"
    and once1: "onceCallbacks s1 Acceleration \<noteq> None"
  proof (cases "AccelerationInclGravity \<in> observed s")
    case True
    from triggerCallbacks_intact [OF assms(6,7), of ?incl] obtain s' tr where
      tc: "triggerCallbacks AccelerationInclGravity ?incl s
        = (s', [Dispatch AccelerationInclGravity ?incl tr], None)" and fr: "sameButOnce s s'"
      by blast
    then have "onceCallbacks s' Acceleration \<noteq> None"
      using assms(5) by (auto simp: triggerCallbacks_def split: option.splits prod.splits if_splits)
    with True tc fr that show ?thesis by simp
  next
    case False
    with assms(5) that [of s "[]"] show ?thesis by (simp add: skip_def)
  qed
  from sameButOnce_fields [OF frame] assms have s1: "lastOrientationQuat s1 = Some q"
    "callbacks s1 Acceleration = Some cbs" by simp_all
  from once1 obtain o1 where "onceCallbacks s1 Acceleration = Some o1" by blast
  from triggerCallbacks_intact [OF s1(2) this, of ?derived] obtain s2 tr where
    "triggerCallbacks Acceleration ?derived s1 = (s2, [Dispatch Acceleration ?derived tr], None)"
    by blast
  with first s1 have "fst (snd (handleMotion ios now e s)) = out1 @ [Dispatch Acceleration ?derived tr]"
    unfolding handleMotion_derived [OF assms(1,2,3)] by (simp add: andThen_def)
  then show ?thesis by auto
qed

lemma disconnect_fields:
  "observed (disconnect s) = {}" "windowListeners (disconnect s) = {}"
  "hasAbsoluteOrientation (disconnect s) = hasAbsoluteOrientation s"
  "hasAccelerationWithoutGravity (disconnect s) = hasAccelerationWithoutGravity s"
  "lastOrientationQuat (disconnect s) = None"
  using removeListeners_all [of "s\<lparr>observed := {}\<rparr>"]
  by (simp_all add: disconnect_def) (simp_all add: removeListeners_def)

lemma triggerCallbacks_once_present:
  "onceCallbacks s t \<noteq> None \<Longrightarrow> onceCallbacks (fst (triggerCallbacks t' ev s)) t \<noteq> None"
  by (simp add: triggerCallbacks_def split: option.splits prod.splits)

lemma emitOrientation_once_present:
  "onceCallbacks s t \<noteq> None \<Longrightarrow> onceCallbacks (fst (emitOrientation e s)) t \<noteq> None"
proof -
  assume "onceCallbacks s t \<noteq> None"
  then have "onceCallbacks
      (s\<lparr>lastOrientationQuat := Some (quat (detail (orientationEventFromDevice e)))\<rparr>) t \<noteq> None"
    by simp
  from triggerCallbacks_once_present [OF this] this show ?thesis
    by (simp add: emitOrientation_def Let_def)
qed

text \<open>A relative sample that passes the capability check is stored as the last-known
  orientation, and leaves the rest of what the motion handler reads as it was.\<close>

lemma relative_sample:
  assumes "hasAbsoluteOrientation s = CNumber d \<and> d < t \<or> hasAbsoluteOrientation s = CBool False"
    and "DeviceOrientation \<in> windowListeners s"
  shows "lastOrientationQuat (fst (step ios (Deliver (OrientationRaw eo) t) s))
           = Some (quat (detail (orientationEventFromDevice eo)))"
    and "onceCallbacks s u \<noteq> None \<Longrightarrow>
         onceCallbacks (fst (step ios (Deliver (OrientationRaw eo) t) s)) u \<noteq> None"
proof -
  from assms(1) have "handleOrientation t eo s = emitOrientation eo s
      \<or> handleOrientation t eo s = emitOrientation eo (s\<lparr>hasAbsoluteOrientation := CBool False\<rparr>)"
    by (auto simp: handleOrientation_def)
  then have st: "step ios (Deliver (OrientationRaw eo) t) s = emitOrientation eo s
      \<or> step ios (Deliver (OrientationRaw eo) t) s
          = emitOrientation eo (s\<lparr>hasAbsoluteOrientation := CBool False\<rparr>)"
    using assms(2) by simp
  then show "lastOrientationQuat (fst (step ios (Deliver (OrientationRaw eo) t) s))
           = Some (quat (detail (orientationEventFromDevice eo)))"
    by (auto simp: emitOrientation_fields simp del: step.simps)
  assume "onceCallbacks s u \<noteq> None"
  then have "onceCallbacks (fst (emitOrientation eo s)) u \<noteq> None"
    "onceCallbacks (fst (emitOrientation eo (s\<lparr>hasAbsoluteOrientation := CBool False\<rparr>))) u \<noteq> None"
    by (simp_all add: emitOrientation_once_present)
  with st show "onceCallbacks (fst (step ios (Deliver (OrientationRaw eo) t) s)) u \<noteq> None"
    by (auto simp del: step.simps)
qed

lemma absolute_sample:
  assumes "Orientation \<in> observed s" and "DeviceOrientationAbsolute \<in> windowListeners s"
  shows "lastOrientationQuat (fst (step ios (Deliver (OrientationAbsoluteRaw eo) t) s))
           = Some (quat (detail (orientationEventFromDevice eo)))"
  using assms sameButOnce_fields(4) [OF handleOrientationAbsolute_frame [where s = s and e = eo]]
  by simp

lemma sample_then_motion:
  assumes "hasAccelerationWithoutGravity s = CBool False"
    and "hasAbsoluteOrientation s = CNumber d \<and> d < t \<or> hasAbsoluteOrientation s = CBool False"
    and "DeviceOrientation \<in> windowListeners s" and "DeviceMotion \<in> windowListeners s"
    and "Acceleration \<in> observed s"
    and "callbacks s Acceleration = Some cbs" and "onceCallbacks s Acceleration = Some ocbs"
    and "callbacks s AccelerationInclGravity = Some cbs'"
    and "onceCallbacks s AccelerationInclGravity = Some ocbs'"
  shows "\<exists>tr. Dispatch Acceleration
          (AccelerationEv (accelerationEventFromAccInclGravityEventAndOrientationQuat
             (accelerationInclGravityEventFromDevice ios e)
             (quat (detail (orientationEventFromDevice eo))))) tr
        \<in> set (snd (run ios [Deliver (OrientationRaw eo) t, Deliver (MotionRaw e) now] s))"
proof -
  let ?s1 = "fst (step ios (Deliver (OrientationRaw eo) t) s)"
  let ?q = "quat (detail (orientationEventFromDevice eo))"
  have s1: "?s1 = fst (handleOrientation t eo s)" using assms(3) by simp
  have flag: "hasAccelerationWithoutGravity ?s1 = CBool False"
    and obs: "Acceleration \<in> observed ?s1" and wired: "DeviceMotion \<in> windowListeners ?s1"
    and maps: "callbacks ?s1 Acceleration = Some cbs" "callbacks ?s1 AccelerationInclGravity = Some cbs'"
    unfolding s1 using assms by (simp_all add: handleOrientation_fields)
  have last: "lastOrientationQuat ?s1 = Some ?q"
    by (rule relative_sample(1) [OF assms(2,3)])
  from relative_sample(2) [OF assms(2,3), of Acceleration ios eo] assms(7)
  obtain o1 where once1: "onceCallbacks ?s1 Acceleration = Some o1" by auto
  from relative_sample(2) [OF assms(2,3), of AccelerationInclGravity ios eo] assms(9)
  obtain o2 where once2: "onceCallbacks ?s1 AccelerationInclGravity = Some o2" by auto
  from derived_resumes [OF flag last obs maps(1) once1 maps(2) once2, of ios e now]
  obtain tr where "Dispatch Acceleration
          (AccelerationEv (accelerationEventFromAccInclGravityEventAndOrientationQuat
             (accelerationInclGravityEventFromDevice ios e) ?q)) tr
        \<in> set (fst (snd (handleMotion ios now e ?s1)))" by blast
  moreover have "snd (run ios [Deliver (OrientationRaw eo) t, Deliver (MotionRaw e) now] s)
      = fst (snd (step ios (Deliver (OrientationRaw eo) t) s)) @ fst (snd (handleMotion ios now e ?s1))"
    using wired by (simp add: run_Cons_snd run_fst_Cons del: run.simps step.simps) simp
  ultimately show ?thesis by auto
qed

text \<open>
  Claim C7. Take any state in which the gravity-exclusion capability has resolved to false.
  While no last-known orientation exists, a motion event does what it does for the
  gravity-inclusive type alone and dispatches no acceleration event; the withheld event is
  an error of its own in no case (the handler fails only when the gravity-inclusive
  dispatch finds its listener set missing) and is kept nowhere: the last-known orientation
  is still empty, and as long as no orientation event is delivered, no step of the session
  dispatches an acceleration event. \<open>disconnect\<close> clears the last-known orientation,
  whatever it was: a motion event reaching the handler right after it does nothing, and in
  the session that follows, re-observing included, no acceleration event is dispatched
  before an orientation event is delivered. A delivered orientation sample (a relative one
  that passes the capability check, or an absolute one while \<open>Orientation\<close> is observed) is
  stored as the last-known orientation, and the motion event after it dispatches the
  derived acceleration event computed from that sample.
\<close>

theorem derived_acceleration_withheld:
  assumes "hasAccelerationWithoutGravity s = CBool False"
  shows "(lastOrientationQuat s = None \<longrightarrow>
            handleMotion ios now e s =
              (if AccelerationInclGravity \<in> observed s
               then triggerCallbacks AccelerationInclGravity
                      (AccelerationEv (accelerationInclGravityEventFromDevice ios e)) s
               else (s, [], None))
          \<and> (\<forall>d\<in>set (fst (snd (handleMotion ios now e s))). dispatchType d \<noteq> Acceleration)
          \<and> (AccelerationInclGravity \<in> observed s \<longrightarrow>
               callbacks s AccelerationInclGravity \<noteq> None
               \<and> onceCallbacks s AccelerationInclGravity \<noteq> None
               \<longrightarrow> snd (snd (handleMotion ios now e s)) = None)
          \<and> lastOrientationQuat (fst (handleMotion ios now e s)) = None
          \<and> ((\<forall>a\<in>set as. \<not> isOrientationDelivery a) \<longrightarrow>
               lastOrientationQuat (fst (run ios as s)) = None
               \<and> (\<forall>d\<in>set (snd (run ios as s)). dispatchType d \<noteq> Acceleration)))
     \<and> lastOrientationQuat (disconnect s) = None
     \<and> hasAccelerationWithoutGravity (disconnect s) = CBool False
     \<and> handleMotion ios now e (disconnect s) = (disconnect s, [], None)
     \<and> ((\<forall>a\<in>set as. \<not> isOrientationDelivery a) \<longrightarrow>
          lastOrientationQuat (fst (run ios as (disconnect s))) = None
          \<and> (\<forall>d\<in>set (snd (run ios as (disconnect s))). dispatchType d \<noteq> Acceleration))
     \<and> (\<forall>eo t d.
          (hasAbsoluteOrientation s = CNumber d \<and> d < t \<or> hasAbsoluteOrientation s = CBool False)
          \<and> DeviceOrientation \<in> windowListeners s
          \<longrightarrow> lastOrientationQuat (fst (step ios (Deliver (OrientationRaw eo) t) s))
                = Some (quat (detail (orientationEventFromDevice eo))))
     \<and> (\<forall>eo t.
          Orientation \<in> observed s \<and> DeviceOrientationAbsolute \<in> windowListeners s
          \<longrightarrow> lastOrientationQuat (fst (step ios (Deliver (OrientationAbsoluteRaw eo) t) s))
                = Some (quat (detail (orientationEventFromDevice eo))))
     \<and> (\<forall>eo t d cbs ocbs cbs' ocbs'.
          (hasAbsoluteOrientation s = CNumber d \<and> d < t \<or> hasAbsoluteOrientation s = CBool False)
          \<and> DeviceOrientation \<in> windowListeners s \<and> DeviceMotion \<in> windowListeners s
          \<and> Acceleration \<in> observed s
          \<and> callbacks s Acceleration = Some cbs \<and> onceCallbacks s Acceleration = Some ocbs
          \<and> callbacks s AccelerationInclGravity = Some cbs'
          \<and> onceCallbacks s AccelerationInclGravity = Some ocbs'
          \<longrightarrow> (\<exists>tr. Dispatch Acceleration
                 (AccelerationEv (accelerationEventFromAccInclGravityEventAndOrientationQuat
                    (accelerationInclGravityEventFromDevice ios e)
                    (quat (detail (orientationEventFromDevice eo))))) tr
               \<in> set (snd (run ios [Deliver (OrientationRaw eo) t, Deliver (MotionRaw e) now] s))))"
proof -
  have withheld: "lastOrientationQuat s = None \<longrightarrow>
            handleMotion ios now e s =
              (if AccelerationInclGravity \<in> observed s
               then triggerCallbacks AccelerationInclGravity
                      (AccelerationEv (accelerationInclGravityEventFromDevice ios e)) s
               else (s, [], None))
          \<and> (\<forall>d\<in>set (fst (snd (handleMotion ios now e s))). dispatchType d \<noteq> Acceleration)
          \<and> (AccelerationInclGravity \<in> observed s \<longrightarrow>
               callbacks s AccelerationInclGravity \<noteq> None
               \<and> onceCallbacks s AccelerationInclGravity \<noteq> None
               \<longrightarrow> snd (snd (handleMotion ios now e s)) = None)
          \<and> lastOrientationQuat (fst (handleMotion ios now e s)) = None
          \<and> ((\<forall>a\<in>set as. \<not> isOrientationDelivery a) \<longrightarrow>
               lastOrientationQuat (fst (run ios as s)) = None
               \<and> (\<forall>d\<in>set (snd (run ios as s)). dispatchType d \<noteq> Acceleration))"
  proof
    assume none: "lastOrientationQuat s = None"
    note eq = handleMotion_withheld [OF assms none, of ios now e]
    have a: "handleMotion ios now e s =
           (if AccelerationInclGravity \<in> observed s
            then triggerCallbacks AccelerationInclGravity
                   (AccelerationEv (accelerationInclGravityEventFromDevice ios e)) s
            else (s, [], None))"
      by (simp add: eq skip_def)
    have b: "\<forall>d\<in>set (fst (snd (handleMotion ios now e s))). dispatchType d \<noteq> Acceleration"
      by (rule withheld_out [OF assms none])
    have c: "AccelerationInclGravity \<in> observed s \<longrightarrow>
          callbacks s AccelerationInclGravity \<noteq> None \<and> onceCallbacks s AccelerationInclGravity \<noteq> None
          \<longrightarrow> snd (snd (handleMotion ios now e s)) = None"
    proof (intro impI)
      assume obs: "AccelerationInclGravity \<in> observed s"
        and "callbacks s AccelerationInclGravity \<noteq> None \<and> onceCallbacks s AccelerationInclGravity \<noteq> None"
      then obtain cbs ocbs where "callbacks s AccelerationInclGravity = Some cbs"
        "onceCallbacks s AccelerationInclGravity = Some ocbs" by blast
      from triggerCallbacks_intact [OF this,
          of "AccelerationEv (accelerationInclGravityEventFromDevice ios e)"] obs
      show "snd (snd (handleMotion ios now e s)) = None" by (auto simp: eq)
    qed
    have d: "lastOrientationQuat (fst (handleMotion ios now e s)) = None"
      using none by (simp add: handleMotion_fields)
    have e: "(\<forall>a\<in>set as. \<not> isOrientationDelivery a) \<longrightarrow>
          lastOrientationQuat (fst (run ios as s)) = None
          \<and> (\<forall>d\<in>set (snd (run ios as s)). dispatchType d \<noteq> Acceleration)"
      using withheld_run [OF assms none, of as ios] by blast
    from a b c d e show "handleMotion ios now e s =
              (if AccelerationInclGravity \<in> observed s
               then triggerCallbacks AccelerationInclGravity
                      (AccelerationEv (accelerationInclGravityEventFromDevice ios e)) s
               else (s, [], None))
          \<and> (\<forall>d\<in>set (fst (snd (handleMotion ios now e s))). dispatchType d \<noteq> Acceleration)
          \<and> (AccelerationInclGravity \<in> observed s \<longrightarrow>
               callbacks s AccelerationInclGravity \<noteq> None
               \<and> onceCallbacks s AccelerationInclGravity \<noteq> None
               \<longrightarrow> snd (snd (handleMotion ios now e s)) = None)
          \<and> lastOrientationQuat (fst (handleMotion ios now e s)) = None
          \<and> ((\<forall>a\<in>set as. \<not> isOrientationDelivery a) \<longrightarrow>
               lastOrientationQuat (fst (run ios as s)) = None
               \<and> (\<forall>d\<in>set (snd (run ios as s)). dispatchType d \<noteq> Acceleration))"
      by (intro conjI)
  qed
  have cleared: "lastOrientationQuat (disconnect s) = None"
    and flag': "hasAccelerationWithoutGravity (disconnect s) = CBool False"
    and unobserved: "observed (disconnect s) = {}"
    using assms by (simp_all add: disconnect_fields)
  have idle: "handleMotion ios now e (disconnect s) = (disconnect s, [], None)"
    using handleMotion_withheld [OF flag' cleared, of ios now e] unobserved by (simp add: skip_def)
  have after: "(\<forall>a\<in>set as. \<not> isOrientationDelivery a) \<longrightarrow>
          lastOrientationQuat (fst (run ios as (disconnect s))) = None
          \<and> (\<forall>d\<in>set (snd (run ios as (disconnect s))). dispatchType d \<noteq> Acceleration)"
    using withheld_run [OF flag' cleared, of as ios] by blast
  have rel: "\<forall>eo t d.
          (hasAbsoluteOrientation s = CNumber d \<and> d < t \<or> hasAbsoluteOrientation s = CBool False)
          \<and> DeviceOrientation \<in> windowListeners s
          \<longrightarrow> lastOrientationQuat (fst (step ios (Deliver (OrientationRaw eo) t) s))
                = Some (quat (detail (orientationEventFromDevice eo)))"
    using relative_sample(1) [of s _ _ ios] by blast
  have abs: "\<forall>eo t.
          Orientation \<in> observed s \<and> DeviceOrientationAbsolute \<in> windowListeners s
          \<longrightarrow> lastOrientationQuat (fst (step ios (Deliver (OrientationAbsoluteRaw eo) t) s))
                = Some (quat (detail (orientationEventFromDevice eo)))"
    using absolute_sample [of s ios] by blast
  have resume: "\<forall>eo t d cbs ocbs cbs' ocbs'.
          (hasAbsoluteOrientation s = CNumber d \<and> d < t \<or> hasAbsoluteOrientation s = CBool False)
          \<and> DeviceOrientation \<in> windowListeners s \<and> DeviceMotion \<in> windowListeners s
          \<and> Acceleration \<in> observed s
          \<and> callbacks s Acceleration = Some cbs \<and> onceCallbacks s Acceleration = Some ocbs
          \<and> callbacks s AccelerationInclGravity = Some cbs'
          \<and> onceCallbacks s AccelerationInclGravity = Some ocbs'
          \<longrightarrow> (\<exists>tr. Dispatch Acceleration
                 (AccelerationEv (accelerationEventFromAccInclGravityEventAndOrientationQuat
                    (accelerationInclGravityEventFromDevice ios e)
                    (quat (detail (orientationEventFromDevice eo))))) tr
               \<in> set (snd (run ios [Deliver (OrientationRaw eo) t, Deliver (MotionRaw e) now] s)))"
  proof (intro allI impI)
    fix eo t d cbs ocbs cbs' ocbs'
    assume p: "(hasAbsoluteOrientation s = CNumber d \<and> d < t \<or> hasAbsoluteOrientation s = CBool False)
          \<and> DeviceOrientation \<in> windowListeners s \<and> DeviceMotion \<in> windowListeners s
          \<and> Acceleration \<in> observed s
          \<and> callbacks s Acceleration = Some cbs \<and> onceCallbacks s Acceleration = Some ocbs
          \<and> callbacks s AccelerationInclGravity = Some cbs'
          \<and> onceCallbacks s AccelerationInclGravity = Some ocbs'"
    show "\<exists>tr. Dispatch Acceleration
                 (AccelerationEv (accelerationEventFromAccInclGravityEventAndOrientationQuat
                    (accelerationInclGravityEventFromDevice ios e)
                    (quat (detail (orientationEventFromDevice eo))))) tr
               \<in> set (snd (run ios [Deliver (OrientationRaw eo) t, Deliver (MotionRaw e) now] s))"
      using assms p
      by (intro sample_then_motion [where d = d and cbs = cbs and ocbs = ocbs
            and cbs' = cbs' and ocbs' = ocbs']) simp_all
  qed
  from withheld cleared flag' idle after rel abs resume show ?thesis by (intro conjI)
qed

lemma unresolved_once:
  assumes "\<forall>b. hasAccelerationWithoutGravity s \<noteq> CBool b"
  shows "onceCallbacks (fst (handleMotion ios now e s)) = onceCallbacks s"
  using handleMotion_unresolved [OF assms, of ios now e] by auto

lemma fusedState_fields:
  "hasAccelerationWithoutGravity fusedState = CBool False"
  "lastOrientationQuat fusedState = None"
  "observed fusedState = {Acceleration, AccelerationInclGravity}"
  "callbacks fusedState t = Some []"
  "onceCallbacks fusedState t = Some []"
  "hasAbsoluteOrientation fusedState = CNull"
  "windowListeners fusedState = {DeviceMotion, DeviceOrientation}"
proof -
  let ?s0 = "addListeners (observeCall (Some [Acceleration, AccelerationInclGravity]) newMotionObserver)"
  have flag0: "hasAccelerationWithoutGravity ?s0 = CNull" and wired: "DeviceMotion \<in> windowListeners ?s0"
    by (simp_all add: session_eval)
  let ?s1 = "fst (handleMotion False 0 rawStill ?s0)"
  have still: "\<not> accelerationNonZero rawStill"
    by (simp add: accelerationNonZero_def rawStill_def axisX_def axisY_def axisZ_def orElse_def)
  have flag1: "hasAccelerationWithoutGravity ?s1 = CNumber 20"
    using flag0 still by (simp add: session_eval)
  have fused: "fusedState = fst (handleMotion False 21 rawStill ?s1)"
    using wired by (simp add: fusedState_def fusedSession_def session_eval del: run.simps step.simps)
  show "hasAccelerationWithoutGravity fusedState = CBool False"
    unfolding fused using flag1 still by (simp add: session_eval)
  show "lastOrientationQuat fusedState = None"
    unfolding fused by (simp add: session_eval wiring_maps)
  show "observed fusedState = {Acceleration, AccelerationInclGravity}"
    unfolding fused by (auto simp: session_eval)
  show "callbacks fusedState t = Some []"
    unfolding fused by (simp add: session_eval wiring_maps new_callbacks)
  have "onceCallbacks ?s1 = onceCallbacks ?s0"
    using flag0 by (intro unresolved_once) simp
  moreover have "onceCallbacks (fst (handleMotion False 21 rawStill ?s1)) = onceCallbacks ?s1"
    using flag1 by (intro unresolved_once) simp
  ultimately show "onceCallbacks fusedState t = Some []"
    unfolding fused by (simp add: wiring_maps new_onceCallbacks)
  show "hasAbsoluteOrientation fusedState = CNull"
    unfolding fused by (simp add: session_eval)
  show "windowListeners fusedState = {DeviceMotion, DeviceOrientation}"
    unfolding fused by (auto simp: session_eval)
qed

lemma handleOrientation_last:
  "lastOrientationQuat (fst (handleOrientation now e s)) =
     (case hasAbsoluteOrientation s of
        CNull \<Rightarrow> lastOrientationQuat s
      | CNumber d \<Rightarrow>
          if d < now then Some (quat (detail (orientationEventFromDevice e))) else lastOrientationQuat s
      | CBool b \<Rightarrow>
          if b then lastOrientationQuat s else Some (quat (detail (orientationEventFromDevice e))))"
  by (simp add: handleOrientation_def emitOrientation_fields split: Capability.splits bool.splits)

lemma settledState_last:
  "lastOrientationQuat settledState = Some (quat (detail (orientationEventFromDevice rawLevel)))"
  by (simp add: settledState_def settledSession_def session_eval handleOrientation_last wiring_maps
      del: run.simps step.simps)

lemma waitingState_eq:
  "waitingState = fusedState\<lparr>hasAbsoluteOrientation := CNumber (100 + MEASUREMENT_EPSILON)\<rparr>"
  using relative_first [OF fusedState_fields(6), of False rawLevel 100]
  by (simp add: waitingState_def fusedState_fields(7) del: step.simps)

lemma waitingState_fields:
  "hasAccelerationWithoutGravity waitingState = CBool False"
  "lastOrientationQuat waitingState = None"
  "hasAbsoluteOrientation waitingState = CNumber 120"
  "observed waitingState = {Acceleration, AccelerationInclGravity}"
  "windowListeners waitingState = {DeviceMotion, DeviceOrientation}"
  "callbacks waitingState t = Some []"
  "onceCallbacks waitingState t = Some []"
  by (simp_all add: waitingState_eq fusedState_fields MEASUREMENT_EPSILON_def)

text \<open>Two sessions: one that has a last-known orientation when it is disconnected, and one
  that has none, receives an orientation sample after the grace window, and then a motion
  event.\<close>

theorem derived_acceleration_withheld_witness:
  "hasAccelerationWithoutGravity settledState = CBool False
   \<and> lastOrientationQuat settledState = Some (quat (detail (orientationEventFromDevice rawLevel)))
   \<and> lastOrientationQuat (disconnect settledState) = None
   \<and> handleMotion False 60 rawStill (disconnect settledState) = (disconnect settledState, [], None)
   \<and> lastOrientationQuat
       (fst (run False [ObserveCall None, ObserveSettle True, Deliver (MotionRaw rawStill) 70]
              (disconnect settledState))) = None
   \<and> hasAccelerationWithoutGravity waitingState = CBool False
   \<and> lastOrientationQuat waitingState = None
   \<and> AccelerationInclGravity \<in> observed waitingState
   \<and> Acceleration \<in> observed waitingState
   \<and> snd (snd (handleMotion False 140 rawStill waitingState)) = None
   \<and> lastOrientationQuat (fst (handleMotion False 140 rawStill waitingState)) = None
   \<and> lastOrientationQuat (fst (run False [Deliver (MotionRaw rawStill) 145] waitingState)) = None
   \<and> hasAbsoluteOrientation waitingState = CNumber 120 \<and> (120::int) < 130
   \<and> DeviceOrientation \<in> windowListeners waitingState
   \<and> lastOrientationQuat (fst (step False (Deliver (OrientationRaw rawUpright) 130) waitingState))
       = Some (quat (detail (orientationEventFromDevice rawUpright)))
   \<and> (\<exists>tr. Dispatch Acceleration
          (AccelerationEv (accelerationEventFromAccInclGravityEventAndOrientationQuat
             (accelerationInclGravityEventFromDevice False rawStill)
             (quat (detail (orientationEventFromDevice rawUpright))))) tr
        \<in> set (snd (run False [Deliver (OrientationRaw rawUpright) 130,
                               Deliver (MotionRaw rawStill) 140] waitingState)))"
proof -
  note settled = derived_acceleration_withheld [OF settledState_flags(2),
      of False 60 rawStill "[ObserveCall None, ObserveSettle True, Deliver (MotionRaw rawStill) 70]"]
  note waiting = derived_acceleration_withheld [OF waitingState_fields(1),
      of False 140 rawStill "[Deliver (MotionRaw rawStill) 145]"]
  from settled have cleared: "lastOrientationQuat (disconnect settledState) = None"
    by (elim conjE) assumption
  from settled have idle:
    "handleMotion False 60 rawStill (disconnect settledState) = (disconnect settledState, [], None)"
    by (elim conjE) assumption
  from settled have "(\<forall>a\<in>set [ObserveCall None, ObserveSettle True, Deliver (MotionRaw rawStill) 70].
          \<not> isOrientationDelivery a) \<longrightarrow>
      lastOrientationQuat
        (fst (run False [ObserveCall None, ObserveSettle True, Deliver (MotionRaw rawStill) 70]
               (disconnect settledState))) = None
      \<and> (\<forall>d\<in>set (snd (run False [ObserveCall None, ObserveSettle True, Deliver (MotionRaw rawStill) 70]
                          (disconnect settledState))). dispatchType d \<noteq> Acceleration)"
    by (elim conjE) assumption
  then have after: "lastOrientationQuat
        (fst (run False [ObserveCall None, ObserveSettle True, Deliver (MotionRaw rawStill) 70]
               (disconnect settledState))) = None"
    by simp
  from waiting waitingState_fields(2) have
    noerr0: "AccelerationInclGravity \<in> observed waitingState \<longrightarrow>
          callbacks waitingState AccelerationInclGravity \<noteq> None
          \<and> onceCallbacks waitingState AccelerationInclGravity \<noteq> None
          \<longrightarrow> snd (snd (handleMotion False 140 rawStill waitingState)) = None"
    and still: "lastOrientationQuat (fst (handleMotion False 140 rawStill waitingState)) = None"
    and later0: "(\<forall>a\<in>set [Deliver (MotionRaw rawStill) 145]. \<not> isOrientationDelivery a) \<longrightarrow>
          lastOrientationQuat (fst (run False [Deliver (MotionRaw rawStill) 145] waitingState)) = None
          \<and> (\<forall>d\<in>set (snd (run False [Deliver (MotionRaw rawStill) 145] waitingState)).
                dispatchType d \<noteq> Acceleration)"
    by blast+
  from noerr0 have noerr: "snd (snd (handleMotion False 140 rawStill waitingState)) = None"
    by (simp add: waitingState_fields)
  from later0 have later:
    "lastOrientationQuat (fst (run False [Deliver (MotionRaw rawStill) 145] waitingState)) = None"
    by simp
  from waiting have "\<forall>eo t d.
          (hasAbsoluteOrientation waitingState = CNumber d \<and> d < t
           \<or> hasAbsoluteOrientation waitingState = CBool False)
          \<and> DeviceOrientation \<in> windowListeners waitingState
          \<longrightarrow> lastOrientationQuat (fst (step False (Deliver (OrientationRaw eo) t) waitingState))
                = Some (quat (detail (orientationEventFromDevice eo)))"
    by (elim conjE) assumption
  from this [rule_format, of 120 130 rawUpright]
  have sets: "lastOrientationQuat (fst (step False (Deliver (OrientationRaw rawUpright) 130) waitingState))
       = Some (quat (detail (orientationEventFromDevice rawUpright)))"
    by (simp add: waitingState_fields)
  from waiting have "\<forall>eo t d cbs ocbs cbs' ocbs'.
          (hasAbsoluteOrientation waitingState = CNumber d \<and> d < t
           \<or> hasAbsoluteOrientation waitingState = CBool False)
          \<and> DeviceOrientation \<in> windowListeners waitingState \<and> DeviceMotion \<in> windowListeners waitingState
          \<and> Acceleration \<in> observed waitingState
          \<and> callbacks waitingState Acceleration = Some cbs
          \<and> onceCallbacks waitingState Acceleration = Some ocbs
          \<and> callbacks waitingState AccelerationInclGravity = Some cbs'
          \<and> onceCallbacks waitingState AccelerationInclGravity = Some ocbs'
          \<longrightarrow> (\<exists>tr. Dispatch Acceleration
                 (AccelerationEv (accelerationEventFromAccInclGravityEventAndOrientationQuat
                    (accelerationInclGravityEventFromDevice False rawStill)
                    (quat (detail (orientationEventFromDevice eo))))) tr
               \<in> set (snd (run False [Deliver (OrientationRaw eo) t, Deliver (MotionRaw rawStill) 140]
                              waitingState)))"
    by (elim conjE) assumption
  from this [rule_format, of 120 130 "[]" "[]" "[]" "[]" rawUpright]
  have resume: "\<exists>tr. Dispatch Acceleration
          (AccelerationEv (accelerationEventFromAccInclGravityEventAndOrientationQuat
             (accelerationInclGravityEventFromDevice False rawStill)
             (quat (detail (orientationEventFromDevice rawUpright))))) tr
        \<in> set (snd (run False [Deliver (OrientationRaw rawUpright) 130,
                               Deliver (MotionRaw rawStill) 140] waitingState))"
    by (simp add: waitingState_fields del: run.simps)
  from cleared idle after noerr still later sets resume show ?thesis
    by (simp add: settledState_flags settledState_last waitingState_fields del: run.simps step.simps)
qed

section \<open>After \<open>disconnect\<close>\<close>

lemma triggerCallbacks_gone:
  "callbacks s t = None \<Longrightarrow> triggerCallbacks t ev s = (s, [Dispatch t ev []], Some TypeError)"
  by (simp add: triggerCallbacks_def)

lemma quietFailure_skip:
  "callbacks s' = callbacks s \<Longrightarrow> onceCallbacks s' = onceCallbacks s \<Longrightarrow> quietFailure s (skip s')"
  by (simp add: quietFailure_def skip_def)

lemma quietFailure_trigger:
  "listenerSetsGone s \<Longrightarrow> callbacks s' = callbacks s \<Longrightarrow> onceCallbacks s' = onceCallbacks s \<Longrightarrow>
   quietFailure s (triggerCallbacks t ev s')"
  by (simp add: quietFailure_def listenerSetsGone_def triggerCallbacks_gone)

lemma quietFailure_choice:
  "listenerSetsGone s \<Longrightarrow> callbacks s' = callbacks s \<Longrightarrow> onceCallbacks s' = onceCallbacks s \<Longrightarrow>
   quietFailure s (if c then triggerCallbacks t ev s' else skip s')"
  by (simp add: quietFailure_trigger quietFailure_skip)

lemma quietFailure_andThen:
  assumes "quietFailure s r"
    and "\<And>s1. callbacks s1 = callbacks s \<Longrightarrow> onceCallbacks s1 = onceCallbacks s \<Longrightarrow> quietFailure s (f s1)"
  shows "quietFailure s (andThen r f)"
proof (cases r)
  case (fields s1 out err)
  show ?thesis
  proof (cases err)
    case (Some x)
    with fields assms(1) show ?thesis by (simp add: andThen_def)
  next
    case None
    with fields assms(1) have maps: "callbacks s1 = callbacks s" "onceCallbacks s1 = onceCallbacks s"
      and out: "out = []"
      by (simp_all add: quietFailure_def)
    from assms(2) [OF maps] None fields out show ?thesis
      by (simp add: andThen_def quietFailure_def split: prod.splits)
  qed
qed

lemma emitOrientation_gone:
  assumes "listenerSetsGone s"
  shows "quietFailure s (emitOrientation e s)"
  unfolding emitOrientation_def Let_def
  using assms by (auto intro!: quietFailure_trigger quietFailure_skip)

lemma handleOrientation_gone:
  assumes "listenerSetsGone s"
  shows "quietFailure s (handleOrientation now e s)"
proof -
  have upd: "\<And>c. listenerSetsGone (s\<lparr>hasAbsoluteOrientation := c\<rparr>)"
    using assms by (simp add: listenerSetsGone_def)
  have "\<And>c. quietFailure s (emitOrientation e (s\<lparr>hasAbsoluteOrientation := c\<rparr>))"
    using emitOrientation_gone [OF upd] by (simp add: quietFailure_def)
  with emitOrientation_gone [OF assms] show ?thesis
    by (simp add: handleOrientation_def quietFailure_skip split: Capability.splits bool.splits)
qed

lemma handleOrientationAbsolute_gone:
  assumes "listenerSetsGone s"
  shows "quietFailure s (handleOrientationAbsolute e s)"
  unfolding handleOrientationAbsolute_def Let_def
  using assms by (auto intro!: quietFailure_trigger quietFailure_skip)

lemma handleMotion_gone:
  assumes "listenerSetsGone s"
  shows "quietFailure s (handleMotion ios now e s)"
proof (cases "\<exists>b. hasAccelerationWithoutGravity s = CBool b")
  case False
  then obtain c where "handleMotion ios now e s = skip (s\<lparr>hasAccelerationWithoutGravity := c\<rparr>)"
    using handleMotion_unresolved [of s ios now e] by blast
  then show ?thesis by (simp add: quietFailure_skip)
next
  case True
  then obtain b where flag: "hasAccelerationWithoutGravity s = CBool b" by blast
  have second: "\<And>c t ev s1. callbacks s1 = callbacks s \<Longrightarrow> onceCallbacks s1 = onceCallbacks s \<Longrightarrow>
      quietFailure s (if c then triggerCallbacks t ev s1 else skip s1)"
    by (rule quietFailure_choice [OF assms])
  show ?thesis
  proof (cases b)
    case True
    with flag have f: "hasAccelerationWithoutGravity s = CBool True" by simp
    show ?thesis
      unfolding handleMotion_direct [OF f]
      by (intro quietFailure_andThen quietFailure_choice assms) simp_all
  next
    case False
    with flag have f: "hasAccelerationWithoutGravity s = CBool False" by simp
    show ?thesis
    proof (cases "Acceleration \<in> observed s")
      case no: False
      show ?thesis
        unfolding handleMotion_not_adjusted [OF f no]
        by (intro quietFailure_choice assms) simp_all
    next
      case yes: True
      show ?thesis
      proof (cases "lastOrientationQuat s")
        case None
        show ?thesis
          unfolding handleMotion_withheld [OF f None]
          by (intro quietFailure_choice assms) simp_all
      next
        case (Some q)
        have "quietFailure s (case lastOrientationQuat s1 of
                 Some q \<Rightarrow>
                   triggerCallbacks Acceleration
                     (AccelerationEv
                        (accelerationEventFromAccInclGravityEventAndOrientationQuat
                           (accelerationInclGravityEventFromDevice ios e) q)) s1
               | None \<Rightarrow> (s1, [], Some TypeError))"
          if maps: "callbacks s1 = callbacks s" "onceCallbacks s1 = onceCallbacks s" for s1
        proof (cases "lastOrientationQuat s1")
          case None
          with maps show ?thesis by (simp add: quietFailure_def)
        next
          case (Some q')
          with quietFailure_trigger [OF assms maps] show ?thesis by simp
        qed
        then show ?thesis
          unfolding handleMotion_derived [OF f Some yes]
          by (intro quietFailure_andThen quietFailure_choice assms) simp_all
      qed
    qed
  qed
qed

lemma methods_gone:
  assumes "listenerSetsGone s"
  shows "bind t cb s = Inl TypeError" "addEventListener t cb s = Inl TypeError"
    "on t cb s = Inl TypeError" "once t cb s = Inl TypeError" "unbind t cb s = Inl TypeError"
    "removeEventListener t cb s = Inl TypeError" "off t cb s = Inl TypeError"
  using assms
  by (simp_all add: listenerSetsGone_def bind_def addEventListener_def on_def once_def unbind_def
      removeEventListener_def off_def)

lemma disconnect_gone: "listenerSetsGone (disconnect s)"
  by (simp add: listenerSetsGone_def disconnect_def)

lemma step_gone:
  assumes "listenerSetsGone s"
  shows "quietFailure s (step ios a s)"
proof (cases a)
  case (Deliver ev now)
  with assms show ?thesis
    by (cases ev)
      (simp_all add: handleOrientation_gone handleOrientationAbsolute_gone handleMotion_gone
        quietFailure_skip)
next
  case (ObserveCall f)
  then show ?thesis by (simp add: quietFailure_skip wiring_maps)
next
  case (ObserveSettle g)
  then show ?thesis by (cases g) (simp_all add: observeSettle_def quietFailure_def wiring_maps)
next
  case (Unobserve f)
  then show ?thesis by (simp add: quietFailure_skip unobserve_def wiring_maps)
next
  case Disconnect
  with assms disconnect_gone [of s] show ?thesis
    by (simp add: quietFailure_skip listenerSetsGone_def)
next
  case (Bind t cb)
  with assms show ?thesis by (simp add: methods_gone quietFailure_def)
next
  case (Once t cb)
  with assms show ?thesis by (simp add: methods_gone quietFailure_def)
next
  case (Unbind t cb)
  with assms show ?thesis by (simp add: methods_gone quietFailure_def)
qed

lemma quietFailure_gone: "listenerSetsGone s \<Longrightarrow> quietFailure s r \<Longrightarrow> listenerSetsGone (fst r)"
  by (simp add: quietFailure_def listenerSetsGone_def)

lemma run_gone:
  assumes "listenerSetsGone s"
  shows "listenerSetsGone (fst (run ios as s)) \<and> (\<forall>d\<in>set (snd (run ios as s)). invoked d = [])"
  using assms
proof (induction as arbitrary: s)
  case Nil
  then show ?case by simp
next
  case (Cons a as)
  note q = step_gone [OF Cons.prems, of ios a]
  from Cons.IH [OF quietFailure_gone [OF Cons.prems q]] q show ?case
    by (auto simp: run_fst_Cons run_Cons_snd quietFailure_def list_all_iff simp del: run.simps step.simps)
qed

text \<open>
  Claim C9. \<open>disconnect\<close> removes every key from both listener maps (it does not empty the
  sets). Whatever the session does next, re-observing included, the keys stay missing:
  \<open>bind\<close>, \<open>addEventListener\<close>, \<open>on\<close>, \<open>once\<close>, \<open>unbind\<close>, \<open>removeEventListener\<close> and
  \<open>off\<close> raise a \<^verbatim>\<open>TypeError\<close> for every type, a dispatch of any type raises it before
  any listener is called, every step that makes a dispatch ends in it, and no listener is
  invoked again.
\<close>

theorem disconnect_removes_listener_sets:
  "callbacks (disconnect s) t = None \<and> onceCallbacks (disconnect s) t = None
   \<and> callbacks (fst (run ios as (disconnect s))) t = None
   \<and> onceCallbacks (fst (run ios as (disconnect s))) t = None
   \<and> bind t cb (fst (run ios as (disconnect s))) = Inl TypeError
   \<and> addEventListener t cb (fst (run ios as (disconnect s))) = Inl TypeError
   \<and> on t cb (fst (run ios as (disconnect s))) = Inl TypeError
   \<and> once t cb (fst (run ios as (disconnect s))) = Inl TypeError
   \<and> unbind t cb (fst (run ios as (disconnect s))) = Inl TypeError
   \<and> removeEventListener t cb (fst (run ios as (disconnect s))) = Inl TypeError
   \<and> off t cb (fst (run ios as (disconnect s))) = Inl TypeError
   \<and> triggerCallbacks t ev (fst (run ios as (disconnect s)))
       = (fst (run ios as (disconnect s)), [Dispatch t ev []], Some TypeError)
   \<and> (\<forall>d\<in>set (snd (run ios as (disconnect s))). invoked d = [])
   \<and> (fst (snd (step ios a (fst (run ios as (disconnect s))))) = []
      \<or> snd (snd (step ios a (fst (run ios as (disconnect s))))) = Some TypeError)"
proof -
  let ?s' = "fst (run ios as (disconnect s))"
  note gone0 = disconnect_gone [of s]
  from run_gone [OF gone0, of ios as]
  have gone: "listenerSetsGone ?s'" and silent: "\<forall>d\<in>set (snd (run ios as (disconnect s))). invoked d = []"
    by simp_all
  have maps0: "callbacks (disconnect s) t = None \<and> onceCallbacks (disconnect s) t = None"
    using gone0 by (simp add: listenerSetsGone_def)
  have maps: "callbacks ?s' t = None \<and> onceCallbacks ?s' t = None"
    using gone by (simp add: listenerSetsGone_def)
  have disp: "triggerCallbacks t ev ?s' = (?s', [Dispatch t ev []], Some TypeError)"
    using maps by (simp add: triggerCallbacks_gone)
  have steps: "fst (snd (step ios a ?s')) = [] \<or> snd (snd (step ios a ?s')) = Some TypeError"
    using step_gone [OF gone, of ios a] by (simp add: quietFailure_def)
  from maps0 maps disp silent steps methods_gone [OF gone, of t cb] show ?thesis
    by (intro conjI) simp_all
qed

text \<open>A session with a listener bound is disconnected and observed again; the second
  relative event after that is past the grace window and reaches the dispatch.\<close>

theorem disconnect_removes_listener_sets_witness:
  "callbacks listeningState Orientation = Some [listenerA]
   \<and> callbacks (disconnect listeningState) Orientation = None
   \<and> bind Orientation listenerA (fst (run False reobserveSession (disconnect listeningState)))
       = Inl TypeError
   \<and> once Orientation listenerO (fst (run False reobserveSession (disconnect listeningState)))
       = Inl TypeError
   \<and> fst (snd (step False (Deliver (OrientationRaw rawLevel) 130)
                 (fst (run False reobserveSession (disconnect listeningState)))))
       = [Dispatch Orientation (OrientationEv (orientationEventFromDevice rawLevel)) []]
   \<and> snd (snd (step False (Deliver (OrientationRaw rawLevel) 130)
                 (fst (run False reobserveSession (disconnect listeningState)))))
       = Some TypeError"
proof -
  let ?s' = "fst (run False reobserveSession (disconnect listeningState))"
  note inst = disconnect_removes_listener_sets [of listeningState Orientation False reobserveSession _ _
      "Deliver (OrientationRaw rawLevel) 130"]
  have gone: "callbacks (disconnect listeningState) Orientation = None"
    "callbacks ?s' Orientation = None"
    using inst by simp_all
  have binds: "bind Orientation listenerA ?s' = Inl TypeError"
    "once Orientation listenerO ?s' = Inl TypeError"
    using inst [of listenerA] inst [of listenerO] by simp_all
  have fields: "hasAbsoluteOrientation ?s' = CNumber 120" "DeviceOrientation \<in> windowListeners ?s'"
    "Orientation \<in> observed ?s'"
    by (simp_all add: reobserveSession_def session_eval disconnect_fields listeningState_fields
        del: run.simps step.simps)
  have out: "fst (snd (step False (Deliver (OrientationRaw rawLevel) 130) ?s'))
      = [Dispatch Orientation (OrientationEv (orientationEventFromDevice rawLevel)) []]"
    using fields gone(2)
    by (simp add: handleOrientation_def emitOrientation_def Let_def triggerCallbacks_gone
        del: run.simps)
  with inst have "snd (snd (step False (Deliver (OrientationRaw rawLevel) 130) ?s')) = Some TypeError"
    by simp
  with out gone binds show ?thesis by (simp add: listeningState_fields del: run.simps step.simps)
qed

section \<open>A rejected \<open>observe\<close>\<close>



section \<open>The derived acceleration at rest\<close>

lemma upright_is_identity: "quat (detail (orientationEventFromDevice rawUpright)) = (0, 0, 0, 1)"
proof -
  have half: "90 * (pi / 180) / 2 = pi / 4" by simp
  have "sqrt 2 * sqrt (1 / 2) = 1"
    by (simp add: real_sqrt_divide)
  then have "sqrt 2 / 2 * sqrt (1 / 2) + sqrt 2 / 2 * sqrt (1 / 2) = 1" by simp
  then show ?thesis
    by (simp add: orientationEventFromDevice_def rawUpright_def createEvent_def Let_def orElse_def
        DEG_TO_RAD_def orientationToQuat_def half cos_45 sin_45)
qed

lemma level_quaternion: "quat (detail (orientationEventFromDevice rawLevel)) = (- sqrt 0.5, 0, 0, sqrt 0.5)"
  by (simp add: orientationEventFromDevice_def rawLevel_def createEvent_def Let_def orElse_def
      DEG_TO_RAD_def orientationToQuat_def)

lemma quarter_turn:
  fixes r g :: real
  assumes "2 * (r * r) = 1"
  shows "vecApplyQuat (0, - g, 0) (- r, 0, 0, r) = (0, 0, g)"
proof -
  have "r * (2 * (r * g)) = (2 * (r * r)) * g" by (simp only: ac_simps)
  with assms have z: "r * (2 * (r * g)) = g" by simp
  then have y: "- g + r * (2 * (r * g)) = 0" by simp
  show ?thesis by (simp add: Let_def y z)
qed

lemma level_gravity: "vecApplyQuat (0, - GRAVITY, 0) (- sqrt 0.5, 0, 0, sqrt 0.5) = (0, 0, GRAVITY)"
  by (rule quarter_turn) simp

text \<open>
  Claim C4, evaluated on the code. For the gravity-inclusive reading \<open>(0, 9.80665, 0)\<close> and
  the identity quaternion as last-known orientation, the derived event has \<open>inaccurate\<close> set
  and carries the vector \<open>(0, 19.6133, 0)\<close>, twice the gravity constant on the vertical
  axis, not a vector near zero: the reference vector \<open>(0, - GRAVITY, 0)\<close>, unchanged by the
  identity, is subtracted from the reading. The identity is the quaternion the code computes
  for a device held upright (\<open>beta\<close> of 90 degrees), and the reading is the one the code
  assumes when the sensor reports none. For a device lying flat, with gravity read on the
  third axis, the same function does give the zero vector.
\<close>

theorem derived_acceleration_at_identity:
  "accelerationEventFromAccInclGravityEventAndOrientationQuat
     (createEvent ''accelerationInclGravity''
        \<lparr>acc = (0, 9.80665, 0), interval = 16, inaccurate = False\<rparr>)
     (0, 0, 0, 1)
   = createEvent ''acceleration'' \<lparr>acc = (0, 19.6133, 0), interval = 16, inaccurate = True\<rparr>
   \<and> quat (detail (orientationEventFromDevice rawUpright)) = (0, 0, 0, 1)
   \<and> accelerationInclGravityEventFromDevice False rawStill
       = createEvent ''accelerationInclGravity''
           \<lparr>acc = (0, 9.80665, 0), interval = 16, inaccurate = False\<rparr>
   \<and> accelerationEventFromAccInclGravityEventAndOrientationQuat
       (createEvent ''accelerationInclGravity''
          \<lparr>acc = (0, 0, 9.80665), interval = 16, inaccurate = False\<rparr>)
       (quat (detail (orientationEventFromDevice rawLevel)))
     = createEvent ''acceleration'' \<lparr>acc = (0, 0, 0), interval = 16, inaccurate = True\<rparr>"
proof -
  have flat: "vecSub (0, 0, 9.80665) (vecApplyQuat (0, - GRAVITY, 0) (- sqrt 0.5, 0, 0, sqrt 0.5)) = (0, 0, 0)"
    unfolding level_gravity by (simp add: GRAVITY_def)
  have upright: "vecSub (0, 9.80665, 0) (vecApplyQuat (0, - GRAVITY, 0) (0, 0, 0, 1)) = (0, 19.6133, 0)"
    by (simp add: GRAVITY_def)
  have reading: "accelerationInclGravityEventFromDevice False rawStill
       = createEvent ''accelerationInclGravity''
           \<lparr>acc = (0, 9.80665, 0), interval = 16, inaccurate = False\<rparr>"
    by (simp add: createEvent_def GRAVITY_def accelerationInclGravityEventFromDevice_def
        rawStill_def axisX_def axisY_def axisZ_def orElse_def iosSign_def)
  have derived: "\<And>v q. accelerationEventFromAccInclGravityEventAndOrientationQuat
       (createEvent ''accelerationInclGravity'' \<lparr>acc = v, interval = 16, inaccurate = False\<rparr>) q
     = createEvent ''acceleration''
         \<lparr>acc = vecSub v (vecApplyQuat (0, - GRAVITY, 0) q), interval = 16, inaccurate = True\<rparr>"
    by (simp add: accelerationEventFromAccInclGravityEventAndOrientationQuat_def createEvent_def)
  show ?thesis
    unfolding level_quaternion upright_is_identity derived flat upright reading by simp
qed

end
